theory Spec2Isabelle
  imports Complex_Main "HOL-Library.Word"
begin

unbundle bit_operations_syntax

section \<open>JavaScript values and Buffer primitives\<close>

text \<open>
  The source is JavaScript on Node.js (14 or later). A \<open>Buffer\<close> is a list of bytes.
  Every exception of the source is the one value \<open>JsError\<close>: each handler of the source
  is a bare \<open>catch (e) { }\<close>, so the kind of the exception is never observed.
\<close>

type_synonym byte = "8 word"
type_synonym buffer = "byte list"

datatype error = JsError

text \<open>
  A JavaScript number is a rational, NaN or an infinity (the sign of zero is never
  observed by the source). The values that flow through the codec are numbers, strings,
  Buffers, \<open>null\<close>, booleans and BigInts. A string is kept as the list of the low bytes of
  its code units, which is all that \<open>length\<close> and an \<open>'ascii'\<close> write observe.
\<close>

datatype jsnum = Num rat | NaN | PInf | NInf

datatype jsval =
    JNum jsnum
  | JStr string
  | JBuf buffer
  | JNull
  | JBool bool
  | JBig int

text \<open>
  The conversions of ECMAScript that are not written out here (\<open>ToNumber\<close> and
  \<open>BigInt(...)\<close> of a string or of a Buffer, \<open>ToString\<close> of a Buffer or of a number
  that is not a small integer) are parameters of the model.
\<close>

record runtime =
  rt_number :: "jsval \<Rightarrow> jsnum"
  rt_string :: "jsval \<Rightarrow> string"
  rt_bigint :: "jsval \<Rightarrow> int option"

definition int_val :: "int \<Rightarrow> jsval" where
  "int_val n = JNum (Num (of_int n))"

definition trunc :: "rat \<Rightarrow> int" where
  "trunc r = (if 0 \<le> r then \<lfloor>r\<rfloor> else \<lceil>r\<rceil>)"

definition truthy :: "jsval \<Rightarrow> bool" where
  "truthy v = (case v of
       JNum (Num r) \<Rightarrow> r \<noteq> 0
     | JNum NaN \<Rightarrow> False
     | JNum PInf \<Rightarrow> True
     | JNum NInf \<Rightarrow> True
     | JStr s \<Rightarrow> s \<noteq> []
     | JBuf b \<Rightarrow> True
     | JNull \<Rightarrow> False
     | JBool b \<Rightarrow> b
     | JBig n \<Rightarrow> n \<noteq> 0)"

text \<open>\<open>+value\<close>: a BigInt raises, the rest converts.\<close>

definition to_number :: "runtime \<Rightarrow> jsval \<Rightarrow> error + jsnum" where
  "to_number rt v = (case v of
       JNum n \<Rightarrow> Inr n
     | JNull \<Rightarrow> Inr (Num 0)
     | JBool b \<Rightarrow> Inr (Num (if b then 1 else 0))
     | JBig n \<Rightarrow> Inl JsError
     | _ \<Rightarrow> Inr (rt_number rt v))"

text \<open>\<open>BigInt(value)\<close>: \<open>None\<close> where it raises.\<close>

definition to_bigint :: "runtime \<Rightarrow> jsval \<Rightarrow> int option" where
  "to_bigint rt v = (case v of
       JNum (Num r) \<Rightarrow> (if r = of_int \<lfloor>r\<rfloor> then Some \<lfloor>r\<rfloor> else None)
     | JNum _ \<Rightarrow> None
     | JNull \<Rightarrow> None
     | JBool b \<Rightarrow> Some (if b then 1 else 0)
     | JBig n \<Rightarrow> Some n
     | _ \<Rightarrow> rt_bigint rt v)"

fun digits :: "nat \<Rightarrow> string" where
  "digits n =
     (if n < 10 then [char_of (48 + n)]
      else digits (n div 10) @ [char_of (48 + n mod 10)])"

definition show_int :: "int \<Rightarrow> string" where
  "show_int n = (if n < 0 then CHR ''-'' # digits (nat (- n)) else digits (nat n))"

text \<open>
  Interpolation in a template literal: \<open>`${value}`\<close>. An integer below \<open>2 ^ 53\<close> in
  absolute value is printed digit by digit; a larger number is printed with the
  shortest digits that read back as the same double, which is left to the runtime.
\<close>

definition to_string :: "runtime \<Rightarrow> jsval \<Rightarrow> string" where
  "to_string rt v = (case v of
       JStr s \<Rightarrow> s
     | JNull \<Rightarrow> ''null''
     | JBool b \<Rightarrow> (if b then ''true'' else ''false'')
     | JNum (Num r) \<Rightarrow>
         (if r = of_int \<lfloor>r\<rfloor> \<and> \<bar>r\<bar> < 2 ^ 53 then show_int \<lfloor>r\<rfloor> else rt_string rt v)
     | JNum NaN \<Rightarrow> ''NaN''
     | JNum PInf \<Rightarrow> ''Infinity''
     | JNum NInf \<Rightarrow> ''-Infinity''
     | _ \<Rightarrow> rt_string rt v)"

subsection \<open>Reading and writing a Buffer\<close>

definition byte_of_char :: "char \<Rightarrow> byte" where
  "byte_of_char c = of_nat (of_char c)"

text \<open>Decoding with \<open>'ascii'\<close> unsets the highest bit of each byte.\<close>

definition ascii_char :: "byte \<Rightarrow> char" where
  "ascii_char b = char_of (unat (b AND 0x7F))"

text \<open>\<open>Math.ceil(x / 4) * 4\<close> on an integer.\<close>

definition ceil4 :: "int \<Rightarrow> int" where
  "ceil4 x = ((x + 3) div 4) * 4"

fun scan :: "byte \<Rightarrow> buffer \<Rightarrow> int \<Rightarrow> int" where
  "scan v [] i = -1"
| "scan v (b # bs) i = (if b = v then i else scan v bs (i + 1))"

text \<open>
  \<open>buf.indexOf(value, byteOffset)\<close>: a negative offset counts from the end of the buffer
  (and searches the whole buffer when it lies before the start), an offset at or past the
  end finds nothing. (Buffers are taken shorter than \<open>2 ^ 31\<close> bytes, so that the clamping
  of the offset to 32 bits changes nothing.)
\<close>

definition indexOf :: "buffer \<Rightarrow> byte \<Rightarrow> int \<Rightarrow> int" where
  "indexOf buf v byteOffset =
     (let len = int (length buf);
          start = (if byteOffset < 0
                   then (if 0 \<le> byteOffset + len then len + byteOffset else 0)
                   else (if byteOffset + 1 \<le> len then byteOffset else -1))
      in if start < 0 then -1 else scan v (drop (nat start) buf) start)"

text \<open>
  \<open>buf.toString('ascii', start, end)\<close>: \<open>start\<close> below 0 is 0, \<open>end\<close> beyond the length
  is the length, and an empty or inverted range gives the empty string.
\<close>

definition toString_ascii :: "buffer \<Rightarrow> int \<Rightarrow> int \<Rightarrow> string" where
  "toString_ascii buf start end' =
     (let len = int (length buf);
          s = (if start \<le> 0 then 0 else start);
          e = (if end' > len then len else end')
      in if s \<ge> len \<or> e \<le> s then []
         else map ascii_char (take (nat (e - s)) (drop (nat s) buf)))"

definition adjustOffset :: "int \<Rightarrow> int \<Rightarrow> int" where
  "adjustOffset offset len =
     (if offset < 0 then (if offset + len > 0 then offset + len else 0)
      else if offset < len then offset else len)"

text \<open>\<open>buf.slice(start, end)\<close> never raises.\<close>

definition slice :: "buffer \<Rightarrow> int \<Rightarrow> int \<Rightarrow> buffer" where
  "slice buf start end' =
     (let len = int (length buf);
          s = adjustOffset start len;
          e = adjustOffset end' len
      in take (nat (if e > s then e - s else 0)) (drop (nat s) buf))"

definition be32 :: "32 word \<Rightarrow> buffer" where
  "be32 w = [ucast (drop_bit 24 w), ucast (drop_bit 16 w), ucast (drop_bit 8 w), ucast w]"

definition u32_of_bytes :: "byte \<Rightarrow> byte \<Rightarrow> byte \<Rightarrow> byte \<Rightarrow> 32 word" where
  "u32_of_bytes b0 b1 b2 b3 =
     push_bit 24 (ucast b0) OR push_bit 16 (ucast b1) OR push_bit 8 (ucast b2) OR ucast b3"

text \<open>
  The four bytes at \<open>offset\<close>; the read raises when \<open>buf[offset]\<close> or \<open>buf[offset + 3]\<close>
  is undefined.
\<close>

definition read_u32 :: "buffer \<Rightarrow> int \<Rightarrow> error + 32 word" where
  "read_u32 buf offset =
     (if offset < 0 \<or> int (length buf) \<le> offset + 3 then Inl JsError
      else let i = nat offset
           in Inr (u32_of_bytes (buf ! i) (buf ! (i + 1)) (buf ! (i + 2)) (buf ! (i + 3))))"

definition readInt32BE :: "buffer \<Rightarrow> int \<Rightarrow> error + int" where
  "readInt32BE buf offset = map_sum id sint (read_u32 buf offset)"

text \<open>The value of a 32-bit IEEE 754 pattern, which is what \<open>readFloatBE\<close> returns.\<close>

definition float_value :: "32 word \<Rightarrow> jsnum" where
  "float_value w =
     (let neg = bit w 31;
          e = unat (take_bit 8 (drop_bit 23 w));
          m = unat (take_bit 23 w)
      in if e = 255 then (if m = 0 then (if neg then NInf else PInf) else NaN)
         else let mag = (if e = 0 then of_nat m / 2 ^ 149
                         else if e < 150 then of_nat (2 ^ 23 + m) / 2 ^ (150 - e)
                         else of_nat (2 ^ 23 + m) * 2 ^ (e - 150))
              in Num (if neg then - mag else mag))"

definition readFloatBE :: "buffer \<Rightarrow> int \<Rightarrow> error + jsnum" where
  "readFloatBE buf offset = map_sum id float_value (read_u32 buf offset)"

text \<open>
  \<open>writeInt32BE(value)\<close> on a number: the value is range-checked (NaN passes every
  comparison) and then stored byte by byte, which truncates it to an integer.
\<close>

definition writeInt32BE :: "jsnum \<Rightarrow> error + buffer" where
  "writeInt32BE v = (case v of
       Num r \<Rightarrow> (if r > 2147483647 \<or> r < - 2147483648 then Inl JsError
                 else Inr (be32 (word_of_int (trunc r))))
     | NaN \<Rightarrow> Inr [0, 0, 0, 0]
     | _ \<Rightarrow> Inl JsError)"

definition be64 :: "64 word \<Rightarrow> buffer" where
  "be64 w = be32 (ucast (drop_bit 32 w)) @ be32 (ucast w)"

text \<open>\<open>writeBigUInt64BE(value)\<close>: anything but a BigInt from 0 to \<open>2 ^ 64 - 1\<close> raises.\<close>

definition writeBigUInt64BE :: "jsval \<Rightarrow> error + buffer" where
  "writeBigUInt64BE v = (case v of
       JBig n \<Rightarrow> (if n < 0 \<or> n > 18446744073709551615 then Inl JsError
                  else Inr (be64 (word_of_int n)))
     | _ \<Rightarrow> Inl JsError)"

text \<open>\<open>Buffer.alloc(n)\<close> followed by \<open>write(s, 0, 'ascii')\<close>, for \<open>n\<close> beyond the length of \<open>s\<close>.\<close>

definition padded :: "string \<Rightarrow> buffer" where
  "padded s = map byte_of_char s @ replicate (nat (ceil4 (int (length s) + 1)) - length s) 0"

section \<open>The OSC codec\<close>

subsection \<open>\<open>_buildOSCMessage\<close>\<close>

text \<open>One argument \<open>{ type, value }\<close>; a type outside the switch emits nothing.\<close>

definition encode_arg :: "runtime \<Rightarrow> char \<times> jsval \<Rightarrow> error + buffer" where
  "encode_arg rt arg = (case arg of (ty, v) \<Rightarrow>
     if ty = CHR ''i'' then
       (case to_number rt v of Inl e \<Rightarrow> Inl e | Inr n \<Rightarrow> writeInt32BE n)
     else if ty = CHR ''s'' then
       (case v of JStr s \<Rightarrow> Inr (padded s) | _ \<Rightarrow> Inl JsError)
     else if ty = CHR ''b'' then
       (case v of
          JBuf b \<Rightarrow>
            (case writeInt32BE (Num (of_nat (length b))) of
               Inl e \<Rightarrow> Inl e
             | Inr l \<Rightarrow> Inr (l @ b @ replicate (nat (ceil4 (int (length b))) - length b) 0))
        | _ \<Rightarrow> Inl JsError)
     else if ty = CHR ''t'' then writeBigUInt64BE v
     else Inr [])"

fun encode_args :: "runtime \<Rightarrow> (char \<times> jsval) list \<Rightarrow> error + buffer" where
  "encode_args rt [] = Inr []"
| "encode_args rt (a # as) =
     (case encode_arg rt a of
        Inl e \<Rightarrow> Inl e
      | Inr b \<Rightarrow> (case encode_args rt as of Inl e \<Rightarrow> Inl e | Inr bs \<Rightarrow> Inr (b @ bs)))"

definition buildOSCMessage :: "runtime \<Rightarrow> string \<Rightarrow> (char \<times> jsval) list \<Rightarrow> error + buffer" where
  "buildOSCMessage rt address args =
     (let addrBuf = padded address;
          tagBuf = padded (CHR '','' # map fst args)
      in case encode_args rt args of
           Inl e \<Rightarrow> Inl e
         | Inr bs \<Rightarrow> Inr (addrBuf @ tagBuf @ bs))"

subsection \<open>\<open>_parseOscArgs\<close>\<close>

text \<open>
  The loop over the type tags, with the running offset and the arguments parsed so far.
  There is no case for the tag \<open>t\<close>: like any unknown tag it pushes nothing and leaves
  the offset where it is.
\<close>

fun parse_loop :: "buffer \<Rightarrow> string \<Rightarrow> int \<Rightarrow> jsval list \<Rightarrow> error + jsval list" where
  "parse_loop buf [] offset args = Inr args"
| "parse_loop buf (tag # tags) offset args =
     (if offset \<ge> int (length buf) then Inr args
      else if tag = CHR ''i'' then
        (case readInt32BE buf offset of
           Inl e \<Rightarrow> Inl e
         | Inr n \<Rightarrow> parse_loop buf tags (offset + 4) (args @ [int_val n]))
      else if tag = CHR ''f'' then
        (case readFloatBE buf offset of
           Inl e \<Rightarrow> Inl e
         | Inr x \<Rightarrow> parse_loop buf tags (offset + 4) (args @ [JNum x]))
      else if tag = CHR ''s'' then
        (let strEnd = indexOf buf 0 offset
         in parse_loop buf tags (ceil4 (strEnd + 1))
              (args @ [JStr (toString_ascii buf offset strEnd)]))
      else if tag = CHR ''b'' then
        (case readInt32BE buf offset of
           Inl e \<Rightarrow> Inl e
         | Inr size' \<Rightarrow>
             (let offset' = offset + 4
              in parse_loop buf tags (ceil4 (offset' + size'))
                   (args @ [JBuf (slice buf offset' (offset' + size'))])))
      else if tag = CHR ''N'' then parse_loop buf tags offset (args @ [JNull])
      else if tag = CHR ''T'' then parse_loop buf tags offset (args @ [JBool True])
      else if tag = CHR ''F'' then parse_loop buf tags offset (args @ [JBool False])
      else parse_loop buf tags offset args)"

definition parseOscArgs :: "buffer \<Rightarrow> nat \<Rightarrow> error + jsval list" where
  "parseOscArgs buf addressEnd =
     (let offset = ceil4 (int addressEnd + 1)
      in if offset \<ge> int (length buf) then Inr []
         else let typeTagEnd = indexOf buf 0 offset
              in if typeTagEnd = -1 then Inr []
                 else parse_loop buf (toString_ascii buf (offset + 1) typeTagEnd)
                        (ceil4 (typeTagEnd + 1)) [])"

section \<open>The source object\<close>

text \<open>
  A sink of the registry. The source keys its \<open>Map\<close> by the string
  \<open>`${host}:${port}:${sinkId}`\<close>; with an integer port and sink id that string determines
  the triple, which is the key here. The list keeps the insertion order of the \<open>Map\<close>,
  which is the order of its iteration.
\<close>

record sink =
  host :: string
  port :: int
  sinkId :: int
  active :: bool

type_synonym sink_key = "string \<times> int \<times> int"

text \<open>
  A sample is the bit pattern of a 32-bit float, as a \<open>Float32Array\<close> holds it;
  \<open>None\<close> is \<open>undefined\<close>, which is what reading an array past its end gives.
\<close>

type_synonym sample = "32 word option"

text \<open>
  The fields of \<open>AooSource\<close>. The numbers that the caller supplies are integers.
  \<open>sent\<close> is the transport: every \<open>socket.send(msg, port, host)\<close> appends to it.
\<close>

record session =
  channels :: int
  sampleRate :: int
  blockSize :: int
  sourceId :: int
  sinks :: "(sink_key \<times> sink) list"
  sequence :: int
  streamId :: jsval
  isStreaming :: bool
  formatId :: int
  sinkVersion :: jsval
  startSent :: bool
  detectedSampleRate :: "int option"
  sampleBuffer :: "sample list"
  sent :: "(buffer \<times> int \<times> string) list"

text \<open>\<open>options.x || d\<close> for a numeric option.\<close>

definition option_or :: "int option \<Rightarrow> int \<Rightarrow> int" where
  "option_or v d = (case v of None \<Rightarrow> d | Some n \<Rightarrow> if n = 0 then d else n)"

text \<open>The constructor; \<open>now\<close> is the reading of \<open>Date.now()\<close>.\<close>

definition new_source :: "int option \<Rightarrow> int option \<Rightarrow> int option \<Rightarrow> int option \<Rightarrow> int \<Rightarrow> session" where
  "new_source o_channels o_sampleRate o_blockSize o_sourceId now =
     \<lparr> channels = option_or o_channels 2,
       sampleRate = option_or o_sampleRate 48000,
       blockSize = option_or o_blockSize 256,
       sourceId = option_or o_sourceId 1,
       sinks = [],
       sequence = 0,
       streamId = int_val (now mod 2 ^ 31),
       isStreaming = False,
       formatId = 0,
       sinkVersion = JStr ''2.0'',
       startSent = False,
       detectedSampleRate = None,
       sampleBuffer = [],
       sent = [] \<rparr>"

fun map_set :: "'k \<Rightarrow> 'v \<Rightarrow> ('k \<times> 'v) list \<Rightarrow> ('k \<times> 'v) list" where
  "map_set k v [] = [(k, v)]"
| "map_set k v (p # ps) = (if fst p = k then (k, v) # ps else p # map_set k v ps)"

definition map_has :: "'k \<Rightarrow> ('k \<times> 'v) list \<Rightarrow> bool" where
  "map_has k m = (k \<in> set (map fst m))"

definition addSink :: "string \<Rightarrow> int \<Rightarrow> int \<Rightarrow> session \<Rightarrow> session" where
  "addSink h p i st =
     st\<lparr>sinks := map_set (h, p, i) \<lparr>host = h, port = p, sinkId = i, active = True\<rparr> (sinks st)\<rparr>"

definition start :: "session \<Rightarrow> session" where
  "start st =
     (if isStreaming st then st
      else st\<lparr>isStreaming := True, sequence := 0, sampleBuffer := [],
              startSent := False, detectedSampleRate := None\<rparr>)"


definition setSampleRate :: "int \<Rightarrow> session \<Rightarrow> session" where
  "setSampleRate newRate st =
     (if sampleRate st \<noteq> newRate
      then st\<lparr>sampleRate := newRate, formatId := formatId st + 1\<rparr>
      else st)"

subsection \<open>The \<open>/start\<close> message\<close>

definition makePcmExtension :: buffer where
  "makePcmExtension = [0, 0, 0, 3]"

definition start_args :: "session \<Rightarrow> (char \<times> jsval) list" where
  "start_args st =
     [ (CHR ''i'', int_val (sourceId st)),
       (CHR ''s'', if truthy (sinkVersion st) then sinkVersion st else JStr ''2.0''),
       (CHR ''i'', streamId st),
       (CHR ''i'', int_val (sequence st)),
       (CHR ''i'', int_val (formatId st)),
       (CHR ''i'', int_val (channels st)),
       (CHR ''i'', int_val (sampleRate st)),
       (CHR ''i'', int_val (blockSize st)),
       (CHR ''s'', JStr ''pcm''),
       (CHR ''b'', JBuf makePcmExtension),
       (CHR ''t'', JBig 0),
       (CHR ''i'', JNum (Num (of_int (sampleRate st) / 10))),
       (CHR ''i'', int_val 0),
       (CHR ''N'', JNull),
       (CHR ''N'', JNull),
       (CHR ''i'', int_val 0) ]"

definition start_message :: "runtime \<Rightarrow> session \<Rightarrow> int \<Rightarrow> error + buffer" where
  "start_message rt st sid =
     buildOSCMessage rt (''/aoo/sink/'' @ to_string rt (int_val sid) @ ''/start'') (start_args st)"

text \<open>
  A stateful operation returns the exception it raised, if any, and the state it left
  behind: what was assigned or sent before the exception stays.
\<close>

definition sendStartOSC :: "runtime \<Rightarrow> string \<Rightarrow> int \<Rightarrow> int \<Rightarrow> session \<Rightarrow> error option \<times> session" where
  "sendStartOSC rt h p sid st =
     (case start_message rt st sid of
        Inl e \<Rightarrow> (Some e, st)
      | Inr msg \<Rightarrow> (None, st\<lparr>sent := sent st @ [(msg, p, h)]\<rparr>))"

text \<open>The loop \<open>for (const sink of this.sinks.values()) if (sink.active) ...\<close>.\<close>

fun start_each :: "runtime \<Rightarrow> sink list \<Rightarrow> session \<Rightarrow> error option \<times> session" where
  "start_each rt [] st = (None, st)"
| "start_each rt (s # ss) st =
     (if active s then
        (case sendStartOSC rt (host s) (port s) (sinkId s) st of
           (Some e, st') \<Rightarrow> (Some e, st')
         | (None, st') \<Rightarrow> start_each rt ss st')
      else start_each rt ss st)"

definition sendStartToAllSinks :: "runtime \<Rightarrow> session \<Rightarrow> error option \<times> session" where
  "sendStartToAllSinks rt st =
     (case start_each rt (map snd (sinks st)) st of
        (Some e, st') \<Rightarrow> (Some e, st')
      | (None, st') \<Rightarrow> (None, st'\<lparr>startSent := True\<rparr>))"

definition updateSampleRate :: "runtime \<Rightarrow> int \<Rightarrow> session \<Rightarrow> error option \<times> session" where
  "updateSampleRate rt newRate st =
     (if \<not> startSent st then (None, setSampleRate newRate st)
      else if sampleRate st \<noteq> newRate then
        start_each rt (map snd (sinks st))
          (st\<lparr>sampleRate := newRate, formatId := formatId st + 1\<rparr>)
      else (None, st))"

subsection \<open>The binary data message\<close>

text \<open>\<open>writeUInt16BE(value)\<close> raises on a value beyond \<open>0xffff\<close>.\<close>

definition writeUInt16BE :: "nat \<Rightarrow> error + buffer" where
  "writeUInt16BE n =
     (if n > 65535 then Inl JsError
      else Inr [ucast (drop_bit 8 (word_of_nat n :: 16 word)), ucast (word_of_nat n :: 16 word)])"

definition kAooBinMsgDomainBit :: byte where
  "kAooBinMsgDomainBit = 0x80"

definition kAooBinMsgCmdData :: byte where
  "kAooBinMsgCmdData = 0"

definition kAooMsgTypeSink :: byte where
  "kAooMsgTypeSink = 1"

definition buildDataMessage :: "runtime \<Rightarrow> session \<Rightarrow> sink \<Rightarrow> buffer \<Rightarrow> error + buffer" where
  "buildDataMessage rt st snk audioData =
     (let hdr = [kAooMsgTypeSink OR kAooBinMsgDomainBit, kAooBinMsgCmdData,
                 word_of_int (sinkId snk) AND 0xFF, word_of_int (sourceId st) AND 0xFF]
      in case to_number rt (streamId st) of
           Inl e \<Rightarrow> Inl e
         | Inr sidn \<Rightarrow>
        (case writeInt32BE sidn of
           Inl e \<Rightarrow> Inl e
         | Inr sid \<Rightarrow>
        (case writeInt32BE (Num (of_int (sequence st))) of
           Inl e \<Rightarrow> Inl e
         | Inr sq \<Rightarrow>
        (case writeUInt16BE (length audioData) of
           Inl e \<Rightarrow> Inl e
         | Inr lenb \<Rightarrow> Inr (hdr @ sid @ sq @ [0, 0] @ lenb @ audioData)))))"

text \<open>
  \<open>writeFloatBE\<close> of a sample. The sample has passed through a JavaScript number, in
  which a NaN carries no payload: every NaN pattern, like \<open>undefined\<close>, is written as
  the quiet NaN \<open>0x7FC00000\<close>.
\<close>

definition is_nan :: "32 word \<Rightarrow> bool" where
  "is_nan w = (take_bit 8 (drop_bit 23 w) = 255 \<and> take_bit 23 w \<noteq> 0)"

definition writeFloatBE :: "sample \<Rightarrow> buffer" where
  "writeFloatBE x =
     (case x of
        Some w \<Rightarrow> if is_nan w then be32 0x7FC00000 else be32 w
      | None \<Rightarrow> be32 0x7FC00000)"

text \<open>The loop over all sinks of \<open>_sendBlock\<close>, which stops at the first exception.\<close>

fun send_each :: "runtime \<Rightarrow> sink list \<Rightarrow> buffer \<Rightarrow> session \<Rightarrow> error option \<times> session" where
  "send_each rt [] audioBytes st = (None, st)"
| "send_each rt (s # ss) audioBytes st =
     (case buildDataMessage rt st s audioBytes of
        Inl e \<Rightarrow> (Some e, st)
      | Inr msg \<Rightarrow> send_each rt ss audioBytes (st\<lparr>sent := sent st @ [(msg, port s, host s)]\<rparr>))"

definition sendBlock :: "runtime \<Rightarrow> sample list \<Rightarrow> session \<Rightarrow> error option \<times> session" where
  "sendBlock rt samples st =
     (let audioBytes = concat (map writeFloatBE samples)
      in case send_each rt (map snd (sinks st)) audioBytes st of
           (Some e, st') \<Rightarrow> (Some e, st')
         | (None, st') \<Rightarrow>
             (let s = sequence st' + 1
              in (None, st'\<lparr>sequence := (if s \<ge> 0x7FFFFFFF then 0 else s)\<rparr>)))"

subsection \<open>\<open>sendAudio\<close>\<close>

definition array_get :: "'a list \<Rightarrow> nat \<Rightarrow> 'a option" where
  "array_get xs i = (if i < length xs then Some (xs ! i) else None)"

text \<open>The interleaving loop \<open>for (let i = 0; i < leftArr.length; i++)\<close>.\<close>

definition push_samples :: "32 word list \<Rightarrow> 32 word list \<Rightarrow> sample list \<Rightarrow> sample list" where
  "push_samples leftArr rightArr buf =
     foldl (\<lambda>b i. b @ [array_get leftArr i] @ [array_get rightArr i]) buf [0..<length leftArr]"

text \<open>
  The loop \<open>while (this.sampleBuffer.length >= samplesPerBlock)\<close>. It does not end when
  \<open>samplesPerBlock\<close> is zero or negative (\<open>splice(0, n)\<close> removes nothing then), so the
  result is an option: \<open>None\<close> is a call that never returns.
\<close>

partial_function (option) drain :: "runtime \<Rightarrow> session \<Rightarrow> (error option \<times> session) option" where
  "drain rt st =
     (let samplesPerBlock = blockSize st * channels st
      in if int (length (sampleBuffer st)) \<ge> samplesPerBlock then
           (let block = take (nat samplesPerBlock) (sampleBuffer st);
                st1 = st\<lparr>sampleBuffer := drop (nat samplesPerBlock) (sampleBuffer st)\<rparr>
            in case sendBlock rt block st1 of
                 (Some e, st2) \<Rightarrow> Some (Some e, st2)
               | (None, st2) \<Rightarrow> drain rt st2)
         else Some (None, st))"

text \<open>The announcement on the first audio data.\<close>

definition announce :: "runtime \<Rightarrow> int option \<Rightarrow> session \<Rightarrow> error option \<times> session" where
  "announce rt rate st =
     (if \<not> startSent st then
        sendStartToAllSinks rt
          (case rate of
             None \<Rightarrow> st
           | Some r \<Rightarrow> if r \<noteq> 0 \<and> r \<noteq> sampleRate st then setSampleRate r st else st)
      else (None, st))"

definition sendAudio :: "runtime \<Rightarrow> 32 word list \<Rightarrow> 32 word list \<Rightarrow> int option \<Rightarrow> session
    \<Rightarrow> (error option \<times> session) option" where
  "sendAudio rt left right rate st =
     (if \<not> isStreaming st then Some (None, st)
      else case announce rt rate st of
             (Some e, st1) \<Rightarrow> Some (Some e, st1)
           | (None, st1) \<Rightarrow>
               drain rt (st1\<lparr>sampleBuffer := push_samples left right (sampleBuffer st1)\<rparr>))"

subsection \<open>Incoming messages\<close>

text \<open>\<open>address.includes(sub)\<close>.\<close>

fun str_includes :: "string \<Rightarrow> string \<Rightarrow> bool" where
  "str_includes [] sub = (sub = [])"
| "str_includes (c # cs) sub = (take (length sub) (c # cs) = sub \<or> str_includes cs sub)"

text \<open>\<open>_sendPong\<close>: everything is inside \<open>try { } catch (e) { }\<close>.\<close>

definition sendPong :: "runtime \<Rightarrow> int \<Rightarrow> string \<Rightarrow> int \<Rightarrow> buffer \<Rightarrow> nat \<Rightarrow> session \<Rightarrow> session" where
  "sendPong rt now h p msg nullIdx st =
     (case parseOscArgs msg nullIdx of
        Inl e \<Rightarrow> st
      | Inr args \<Rightarrow>
          if length args \<ge> 2 then
            (let sid = args ! 0;
                 tt1 = args ! 1;
                 tt2 = now * 1000000;
                 pongAddr = ''/aoo/sink/'' @ to_string rt sid @ ''/pong''
             in case to_bigint rt (if truthy tt1 then tt1 else int_val 0) of
                  None \<Rightarrow> st
                | Some t1 \<Rightarrow>
                    (case buildOSCMessage rt pongAddr
                            [(CHR ''i'', int_val (sourceId st)), (CHR ''t'', JBig t1),
                             (CHR ''t'', JBig tt2)] of
                       Inl e \<Rightarrow> st
                     | Inr pongMsg \<Rightarrow> st\<lparr>sent := sent st @ [(pongMsg, p, h)]\<rparr>))
          else st)"

text \<open>
  \<open>_handleMessage(msg, rinfo)\<close> with \<open>rinfo = { address: h, port: p }\<close>. The \<open>/invite\<close>
  branch is one \<open>try\<close> block; in the \<open>/start\<close> branch only the parsing is.
\<close>

definition handleMessage :: "runtime \<Rightarrow> int \<Rightarrow> buffer \<Rightarrow> string \<Rightarrow> int \<Rightarrow> session
    \<Rightarrow> error option \<times> session" where
  "handleMessage rt now msg h p st =
     (if length msg \<ge> 4 \<and> (msg ! 0) AND kAooBinMsgDomainBit \<noteq> 0 then (None, st)
      else
        let nullIdx = indexOf msg 0 0
        in if nullIdx > 0 then
             (let address = toString_ascii msg 0 nullIdx
              in if str_includes address ''/invite'' then
                   (case parseOscArgs msg (nat nullIdx) of
                      Inl e \<Rightarrow> (None, st)
                    | Inr args \<Rightarrow>
                        if length args \<ge> 2 then
                          (let token = args ! 1;
                               st1 = st\<lparr>streamId := token, formatId := 0, sequence := 0\<rparr>;
                               st2 = addSink h p 1 st1
                           in case sendStartOSC rt h p 1 st2 of
                                (Some e, st3) \<Rightarrow> (None, st3)
                              | (None, st3) \<Rightarrow> (None, start st3))
                        else (None, st))
                 else if str_includes address ''/start'' then
                   (let st1 = (case parseOscArgs msg (nat nullIdx) of
                                 Inl e \<Rightarrow> st
                               | Inr args \<Rightarrow>
                                   if length args \<ge> 2 then st\<lparr>sinkVersion := args ! 1\<rparr> else st);
                        st2 = (if \<not> map_has (h, p, 1) (sinks st1) then addSink h p 1 st1 else st1)
                    in sendStartOSC rt h p 1 st2)
                 else if str_includes address ''/ping'' then
                   (None, sendPong rt now h p msg (nat nullIdx) st)
                 else (None, st))
           else (None, st))"

section \<open>Observing a session\<close>

text \<open>
  A datagram of the transport is a binary frame when the domain bit of its first byte
  is set; its sequence number is the \<open>int32\<close> in bytes 8 to 11 and its payload starts at
  byte 16.
\<close>

definition is_frame :: "buffer \<Rightarrow> bool" where
  "is_frame msg = (msg \<noteq> [] \<and> (msg ! 0) AND kAooBinMsgDomainBit \<noteq> 0)"

definition frame_sequence :: "buffer \<Rightarrow> int" where
  "frame_sequence msg = sint (u32_of_bytes (msg ! 8) (msg ! 9) (msg ! 10) (msg ! 11))"

definition frame_payload :: "buffer \<Rightarrow> buffer" where
  "frame_payload msg = drop 16 msg"

text \<open>The sequence number \<open>j\<close> frames after the sequence number \<open>s\<close>.\<close>

definition seq_at :: "int \<Rightarrow> nat \<Rightarrow> int" where
  "seq_at s j = (s + int j) mod 0x7FFFFFFF"

text \<open>The frames among the datagrams sent since the transport held \<open>n\<close> datagrams.\<close>

definition frames_since :: "nat \<Rightarrow> session \<Rightarrow> buffer list" where
  "frames_since n st = filter is_frame (map fst (drop n (sent st)))"

text \<open>The samples that the interleaving loop appends for one call.\<close>

definition interleaved :: "32 word list \<Rightarrow> 32 word list \<Rightarrow> sample list" where
  "interleaved leftArr rightArr =
     concat (map (\<lambda>i. [Some (leftArr ! i), array_get rightArr i]) [0..<length leftArr])"

text \<open>The \<open>j\<close>-th block of \<open>n\<close> samples of a stream, as the bytes of a payload.\<close>

definition block_bytes :: "nat \<Rightarrow> sample list \<Rightarrow> nat \<Rightarrow> buffer" where
  "block_bytes n stream j = concat (map writeFloatBE (take n (drop (j * n) stream)))"



text \<open>
  From \<open>st\<close> to \<open>st'\<close> the transport has only grown, the frames sent since carry the
  \<open>m\<close> sequence numbers that follow the one of \<open>st\<close>, once per sink, and the registry
  and the block format are as they were.
\<close>

definition advanced :: "session \<Rightarrow> session \<Rightarrow> nat \<Rightarrow> bool" where
  "advanced st st' m =
     (take (length (sent st)) (sent st') = sent st \<and>
      map frame_sequence (frames_since (length (sent st)) st')
        = concat (map (\<lambda>j. replicate (length (sinks st)) (seq_at (sequence st) j)) [0..<m]) \<and>
      sequence st' = seq_at (sequence st) m \<and>
      sinks st' = sinks st \<and> blockSize st' = blockSize st \<and> channels st' = channels st \<and>
      isStreaming st' = isStreaming st)"

text \<open>
  The frames sent from \<open>st\<close> to \<open>st'\<close> carry, once per sink, the first \<open>m\<close> blocks of
  the stream, and \<open>st'\<close> retains the rest of it.
\<close>

definition drained :: "session \<Rightarrow> session \<Rightarrow> sample list \<Rightarrow> nat \<Rightarrow> bool" where
  "drained st st' stream m =
     (let n = nat (blockSize st * channels st)
      in map frame_payload (frames_since (length (sent st)) st')
           = concat (map (\<lambda>j. replicate (length (sinks st)) (block_bytes n stream j)) [0..<m]) \<and>
         sampleBuffer st' = drop (m * n) stream)"


text \<open>The body of the draining loop, run \<open>n\<close> times or up to the first exception.\<close>

fun send_blocks :: "runtime \<Rightarrow> nat \<Rightarrow> session \<Rightarrow> error option \<times> session" where
  "send_blocks rt 0 st = (None, st)"
| "send_blocks rt (Suc n) st =
     (let samplesPerBlock = blockSize st * channels st;
          block = take (nat samplesPerBlock) (sampleBuffer st);
          st1 = st\<lparr>sampleBuffer := drop (nat samplesPerBlock) (sampleBuffer st)\<rparr>
      in case sendBlock rt block st1 of
           (Some e, st2) \<Rightarrow> (Some e, st2)
         | (None, st2) \<Rightarrow> send_blocks rt n st2)"

section \<open>Sessions whose \<open>/start\<close> message can be encoded\<close>

text \<open>
  The numbers of the message are in the range of \<open>int32\<close>, the stream id converts to a
  number that \<open>writeInt32BE\<close> accepts, and the version is a string (or a value that
  \<open>||\<close> replaces by \<open>'2.0'\<close>).
\<close>

definition in_int32 :: "int \<Rightarrow> bool" where
  "in_int32 n = (- 2147483648 \<le> n \<and> n \<le> 2147483647)"

definition start_encodable :: "runtime \<Rightarrow> session \<Rightarrow> bool" where
  "start_encodable rt st =
     (in_int32 (sourceId st) \<and> in_int32 (sequence st) \<and> in_int32 (formatId st) \<and>
      in_int32 (channels st) \<and> in_int32 (sampleRate st) \<and> in_int32 (blockSize st) \<and>
      (case to_number rt (streamId st) of
         Inl e \<Rightarrow> False
       | Inr n \<Rightarrow> (case writeInt32BE n of Inl e \<Rightarrow> False | Inr b \<Rightarrow> True)) \<and>
      (case sinkVersion st of JStr s \<Rightarrow> True | v \<Rightarrow> \<not> truthy v))"

text \<open>
  A session whose frames can be encoded: the sequence number is in its range and the
  stream id converts to a number that \<open>writeInt32BE\<close> accepts.
\<close>

definition frame_encodable :: "runtime \<Rightarrow> session \<Rightarrow> bool" where
  "frame_encodable rt st =
     (0 \<le> sequence st \<and> sequence st < 0x7FFFFFFF \<and>
      (case to_number rt (streamId st) of
         Inl e \<Rightarrow> False
       | Inr n \<Rightarrow> (case writeInt32BE n of Inl e \<Rightarrow> False | Inr b \<Rightarrow> True)))"

section \<open>Observing the dispatcher\<close>

text \<open>
  The address that \<open>_handleMessage\<close> reads from a datagram (none for a binary message or
  when there is no NUL beyond the first byte), the arguments that it decodes, and the
  condition under which the \<open>/invite\<close> branch is taken and acts.
\<close>

definition osc_address :: "buffer \<Rightarrow> string option" where
  "osc_address msg =
     (if length msg \<ge> 4 \<and> (msg ! 0) AND kAooBinMsgDomainBit \<noteq> 0 then None
      else let nullIdx = indexOf msg 0 0
           in if nullIdx > 0 then Some (toString_ascii msg 0 nullIdx) else None)"

definition osc_args :: "buffer \<Rightarrow> error + jsval list" where
  "osc_args msg = parseOscArgs msg (nat (indexOf msg 0 0))"

definition invite_accepted :: "buffer \<Rightarrow> bool" where
  "invite_accepted msg =
     (case osc_address msg of
        None \<Rightarrow> False
      | Some address \<Rightarrow>
          str_includes address ''/invite'' \<and>
          (case osc_args msg of Inl e \<Rightarrow> False | Inr args \<Rightarrow> length args \<ge> 2))"

section \<open>Well-formed arguments\<close>

text \<open>
  The arguments on which encoding and decoding agree: an integer in the range of
  \<open>int32\<close> under \<open>i\<close>, a string of 7-bit characters other than NUL under \<open>s\<close>, a Buffer
  under \<open>b\<close>, \<open>null\<close> under \<open>N\<close>, \<open>true\<close> under \<open>T\<close> and \<open>false\<close> under \<open>F\<close>.
\<close>

definition ascii_text :: "string \<Rightarrow> bool" where
  "ascii_text s = list_all (\<lambda>c. c \<noteq> CHR 0x00 \<and> of_char c < (128::nat)) s"

definition data_tag :: "char \<Rightarrow> bool" where
  "data_tag ty = (ty = CHR ''i'' \<or> ty = CHR ''s'' \<or> ty = CHR ''b'')"

definition wire_arg :: "char \<times> jsval \<Rightarrow> bool" where
  "wire_arg arg = (case arg of (ty, v) \<Rightarrow>
     (case v of
        JNum (Num r) \<Rightarrow>
          ty = CHR ''i'' \<and> r = of_int \<lfloor>r\<rfloor> \<and> - 2147483648 \<le> r \<and> r \<le> 2147483647
      | JStr s \<Rightarrow> ty = CHR ''s'' \<and> ascii_text s
      | JBuf b \<Rightarrow> ty = CHR ''b'' \<and> length b \<le> 2147483647
      | JNull \<Rightarrow> ty = CHR ''N''
      | JBool b \<Rightarrow> ty = (if b then CHR ''T'' else CHR ''F'')
      | _ \<Rightarrow> False))"

definition ends_with_data :: "(char \<times> jsval) list \<Rightarrow> bool" where
  "ends_with_data args = (args = [] \<or> data_tag (fst (last args)))"

section \<open>Example inputs\<close>

text \<open>
  A runtime whose open conversions give NaN, the empty string and an exception, and the
  source of the scenario of the specification: two channels, 48000 Hz, blocks of 4
  samples, one sink at 127.0.0.1:9999 with id 1, constructed when the clock reads 1000.
\<close>

definition example_runtime :: runtime where
  "example_runtime = \<lparr>rt_number = (\<lambda>v. NaN), rt_string = (\<lambda>v. []), rt_bigint = (\<lambda>v. None)\<rparr>"

definition example_session :: session where
  "example_session =
     addSink ''127.0.0.1'' 9999 1 (new_source (Some 2) (Some 48000) (Some 4) (Some 1) 1000)"

definition example_sink :: sink where
  "example_sink = \<lparr>host = ''127.0.0.1'', port = 9999, sinkId = 1, active = True\<rparr>"

text \<open>The example session once streaming has begun and \<open>/start\<close> has been announced.\<close>

definition example_announced :: session where
  "example_announced = example_session\<lparr>isStreaming := True, startSent := True\<rparr>"

text \<open>
  Datagrams of a sink at 10.0.0.5:7000: an invitation with the token 777, an invitation
  whose token is the float \<open>2 ^ 32\<close>, a \<open>/start\<close> whose second argument is the integer 5,
  a ping with the time tag 123456, a ping with the time tag \<open>-5\<close>, a ping whose
  address also contains \<open>/start\<close>, and an invitation with a single argument.
\<close>

definition example_invite :: buffer where
  "example_invite = padded ''/aoo/src/1/invite'' @ padded '',ii'' @ be32 1 @ be32 777"

definition example_float_invite :: buffer where
  "example_float_invite = padded ''/aoo/src/1/invite'' @ padded '',if'' @ be32 1 @ be32 0x4F800000"

definition example_start :: buffer where
  "example_start = padded ''/aoo/src/1/start'' @ padded '',ii'' @ be32 1 @ be32 5"

definition example_ping :: buffer where
  "example_ping = padded ''/aoo/src/1/ping'' @ padded '',ii'' @ be32 1 @ be32 123456"

definition example_negative_ping :: buffer where
  "example_negative_ping = padded ''/aoo/src/1/ping'' @ padded '',ii'' @ be32 1 @ be32 (- 5)"

definition example_ping_start :: buffer where
  "example_ping_start = padded ''/aoo/src/1/ping/start'' @ padded '',ii'' @ be32 1 @ be32 123456"

definition example_short_invite :: buffer where
  "example_short_invite = padded ''/aoo/src/1/invite'' @ padded '',i'' @ be32 1"

text \<open>
  The example session after it has received the invitation with the float token from
  10.0.0.5:7000 and \<open>start()\<close> has been called.
\<close>

definition example_poisoned :: session where
  "example_poisoned =
     start (snd (handleMessage example_runtime 0 example_float_invite ''10.0.0.5'' 7000
                   example_session))"

text \<open>
  The announced example session after it has received the same invitation.
\<close>

definition example_reinvited :: session where
  "example_reinvited =
     snd (handleMessage example_runtime 0 example_float_invite ''10.0.0.5'' 7000 example_announced)"




definition example_args :: "(char \<times> jsval) list" where
  "example_args =
     [(CHR ''i'', int_val 5), (CHR ''s'', JStr ''hey''), (CHR ''b'', JBuf [1, 2, 3]),
      (CHR ''N'', JNull), (CHR ''T'', JBool True), (CHR ''i'', int_val (- 7))]"

section \<open>Bytes, words and padding\<close>

lemma length_be32: "length (be32 w) = 4"
  by (simp add: be32_def)

lemma u32_of_be32:
  "u32_of_bytes (ucast (drop_bit 24 w)) (ucast (drop_bit 16 w)) (ucast (drop_bit 8 w)) (ucast w) = (w::32 word)"
proof (rule bit_word_eqI)
  fix n assume n: "n < LENGTH(32)"
  consider "n < 8" | "8 \<le> n" "n < 16" | "16 \<le> n" "n < 24" | "24 \<le> n" by linarith
  then show "bit (u32_of_bytes (ucast (drop_bit 24 w)) (ucast (drop_bit 16 w)) (ucast (drop_bit 8 w)) (ucast w)) n = bit w n"
    using n by cases (auto simp: u32_of_bytes_def bit_simps)
qed

lemma read_u32_be32: "read_u32 (pre @ be32 w @ post) (int (length pre)) = Inr w"
  using u32_of_be32 [of w]
  by (simp add: read_u32_def be32_def nth_append)

lemma sint_word_of_int_32:
  "- 2147483648 \<le> n \<Longrightarrow> n \<le> 2147483647 \<Longrightarrow> sint (word_of_int n :: 32 word) = n"
  by (simp add: sint_sbintrunc' signed_take_bit_int_eq_self)

lemma readInt32BE_be32:
  "- 2147483648 \<le> n \<Longrightarrow> n \<le> 2147483647 \<Longrightarrow>
     readInt32BE (pre @ be32 (word_of_int n) @ post) (int (length pre)) = Inr n"
  by (simp add: readInt32BE_def read_u32_be32 sint_word_of_int_32)

lemma scan_append: "v \<notin> set xs \<Longrightarrow> scan v (xs @ v # ys) i = i + int (length xs)"
  by (induction xs arbitrary: i) auto

lemma scan_none: "v \<notin> set xs \<Longrightarrow> scan v xs i = -1"
  by (induction xs arbitrary: i) auto

lemma indexOf_at:
  "0 \<notin> set xs \<Longrightarrow>
     indexOf (pre @ xs @ 0 # post) 0 (int (length pre)) = int (length pre) + int (length xs)"
  by (simp add: indexOf_def scan_append)

lemma and_7F: "(b :: byte) AND 0x7F = take_bit 7 b"
proof -
  have "(0x7F :: byte) = mask 7" by (simp add: mask_eq_exp_minus_1)
  then show ?thesis by (simp add: take_bit_eq_mask)
qed

lemma ascii_char_byte_of_char:
  assumes "of_char c < (128::nat)" shows "ascii_char (byte_of_char c) = c"
proof -
  have "unat (take_bit 7 (of_nat (of_char c) :: byte)) = of_char c"
    using assms by (simp add: unsigned_take_bit_eq unat_of_nat take_bit_nat_eq_self)
  then show ?thesis
    by (simp add: ascii_char_def byte_of_char_def and_7F)
qed

lemma byte_of_char_eq_0: "byte_of_char c = 0 \<longleftrightarrow> c = CHR 0x00"
proof -
  have u: "unat (byte_of_char c) = of_char c"
    by (simp add: byte_of_char_def unat_of_nat)
  have "byte_of_char c = 0 \<longleftrightarrow> unat (byte_of_char c) = 0"
    by (simp add: unat_eq_0)
  also have "\<dots> \<longleftrightarrow> (of_char c :: nat) = of_char (CHR 0x00)"
    by (simp add: u)
  also have "\<dots> \<longleftrightarrow> c = CHR 0x00"
    by (simp only: of_char_eq_iff)
  finally show ?thesis .
qed

lemma ceil4_ge: "x \<le> ceil4 x"
  unfolding ceil4_def by presburger

lemma ceil4_add: "ceil4 (4 * k + x) = 4 * k + ceil4 x"
  unfolding ceil4_def by presburger

lemma ceil4_mod: "ceil4 x mod 4 = 0"
  unfolding ceil4_def by presburger

lemma length_padded: "int (length (padded s)) = ceil4 (int (length s) + 1)"
  using ceil4_ge [of "int (length s) + 1"] by (simp add: padded_def)

lemma padded_split:
  "\<exists>z. padded s = map byte_of_char s @ 0 # z"
proof -
  have "0 < nat (ceil4 (int (length s) + 1)) - length s"
    using ceil4_ge [of "int (length s) + 1"] by linarith
  then obtain k where "nat (ceil4 (int (length s) + 1)) - length s = Suc k"
    by (cases "nat (ceil4 (int (length s) + 1)) - length s") auto
  then show ?thesis by (simp add: padded_def)
qed


section \<open>Decoding what the encoder wrote\<close>

lemma ceil4_shift: "p mod 4 = 0 \<Longrightarrow> ceil4 (p + x) = p + ceil4 x"
proof -
  assume "p mod 4 = 0"
  then obtain k where k: "p = 4 * k" by (auto elim: dvdE simp: mod_eq_0_iff_dvd)
  show ?thesis by (simp add: k ceil4_add)
qed

lemma ascii_text_no_nul: "ascii_text s \<Longrightarrow> 0 \<notin> set (map byte_of_char s)"
proof
  assume a: "ascii_text s" and "0 \<in> set (map byte_of_char s)"
  then obtain c where c: "c \<in> set s" "byte_of_char c = 0" by auto
  from c(2) have "c = CHR 0x00" by (simp only: byte_of_char_eq_0)
  moreover from a c(1) have "c \<noteq> CHR 0x00" unfolding ascii_text_def list_all_iff by blast
  ultimately show False by blast
qed

lemma ascii_text_roundtrip: "ascii_text s \<Longrightarrow> map ascii_char (map byte_of_char s) = s"
proof -
  assume "ascii_text s"
  then have "\<forall>c \<in> set s. ascii_char (byte_of_char c) = c"
    unfolding ascii_text_def list_all_iff by (blast intro: ascii_char_byte_of_char)
  then show ?thesis by (induction s) simp_all
qed

lemma indexOf_padded:
  assumes "ascii_text s"
  shows "indexOf (pre @ padded s @ post) 0 (int (length pre)) = int (length pre) + int (length s)"
proof -
  obtain z where z: "padded s = map byte_of_char s @ 0 # z" using padded_split by blast
  show ?thesis
    using indexOf_at [OF ascii_text_no_nul [OF assms], of pre "z @ post"]
    by (simp add: z)
qed

lemma toString_ascii_eq:
  "0 \<le> s \<Longrightarrow> e \<le> int (length buf) \<Longrightarrow>
     toString_ascii buf s e = map ascii_char (take (nat (e - s)) (drop (nat s) buf))"
  by (simp add: toString_ascii_def)

lemma toString_padded:
  assumes "ascii_text s"
  shows "toString_ascii (pre @ padded s @ post) (int (length pre)) (int (length pre) + int (length s)) = s"
proof -
  obtain z where z: "padded s = map byte_of_char s @ 0 # z" using padded_split by blast
  have "toString_ascii (pre @ padded s @ post) (int (length pre)) (int (length pre) + int (length s))
      = map ascii_char (take (length s) (drop (length pre) (pre @ padded s @ post)))"
    by (subst toString_ascii_eq) (simp_all add: z)
  also have "\<dots> = s"
    using ascii_text_roundtrip [OF assms] by (simp add: z)
  finally show ?thesis .
qed


lemma adjustOffset_id: "0 \<le> x \<Longrightarrow> x \<le> len \<Longrightarrow> adjustOffset x len = x"
  by (simp add: adjustOffset_def)

lemma slice_middle: "slice (p @ b @ q) (int (length p)) (int (length p) + int (length b)) = b"
proof -
  have s: "adjustOffset (int (length p)) (int (length (p @ b @ q))) = int (length p)"
    by (rule adjustOffset_id) simp_all
  have e: "adjustOffset (int (length p) + int (length b)) (int (length (p @ b @ q)))
             = int (length p) + int (length b)"
    by (rule adjustOffset_id) simp_all
  have n: "nat (if int (length p) + int (length b) > int (length p)
                 then int (length p) + int (length b) - int (length p) else 0) = length b"
    by simp
  show ?thesis
    unfolding slice_def Let_def s e n by simp
qed

lemma trunc_of_int: "trunc (of_int n) = n"
  by (simp add: trunc_def)

lemma writeInt32BE_of_int:
  "- 2147483648 \<le> n \<Longrightarrow> n \<le> 2147483647 \<Longrightarrow>
     writeInt32BE (Num (of_int n)) = Inr (be32 (word_of_int n))"
proof -
  assume a: "- 2147483648 \<le> n" "n \<le> 2147483647"
  have "\<not> (of_int n :: rat) > 2147483647"
    using a(2) by (metis of_int_le_iff of_int_numeral not_less)
  moreover have "\<not> (of_int n :: rat) < - 2147483648"
    using a(1) by (metis of_int_le_iff of_int_numeral of_int_minus not_less)
  ultimately show ?thesis
    by (simp add: writeInt32BE_def trunc_of_int)
qed

text \<open>One step of the decoder on the bytes that the encoder wrote for one argument.\<close>

lemma parse_step_i:
  assumes "- 2147483648 \<le> n" "n \<le> 2147483647"
  shows "parse_loop (pre @ be32 (word_of_int n) @ post) (CHR ''i'' # tags) (int (length pre)) acc
       = parse_loop (pre @ be32 (word_of_int n) @ post) tags (int (length pre) + 4) (acc @ [int_val n])"
  using readInt32BE_be32 [OF assms, of pre post]
  by (simp add: length_be32)

lemma parse_step_s:
  assumes "ascii_text s" "int (length pre) mod 4 = 0"
  shows "parse_loop (pre @ padded s @ post) (CHR ''s'' # tags) (int (length pre)) acc
       = parse_loop (pre @ padded s @ post) tags (int (length pre) + int (length (padded s)))
           (acc @ [JStr s])"
proof -
  have pos: "0 < int (length (padded s))"
    using ceil4_ge [of "int (length s) + 1"] length_padded [of s] by linarith
  have off: "ceil4 (int (length pre) + int (length s) + 1) = int (length pre) + int (length (padded s))"
    using ceil4_shift [OF assms(2), of "int (length s) + 1"] by (simp add: length_padded add.assoc)
  have nle: "\<not> int (length (padded s)) + int (length post) \<le> 0"
    using pos by linarith
  show ?thesis
    using nle by (simp add: indexOf_padded [OF assms(1)] toString_padded [OF assms(1)] off)
qed


lemma parse_step_b:
  assumes "length b \<le> 2147483647" "int (length pre) mod 4 = 0"
  shows "parse_loop (pre @ (be32 (word_of_int (int (length b))) @ b
                       @ replicate (nat (ceil4 (int (length b))) - length b) 0) @ post)
           (CHR ''b'' # tags) (int (length pre)) acc
       = parse_loop (pre @ (be32 (word_of_int (int (length b))) @ b
                       @ replicate (nat (ceil4 (int (length b))) - length b) 0) @ post)
           tags (int (length pre) + (4 + ceil4 (int (length b)))) (acc @ [JBuf b])"
proof -
  let ?z = "replicate (nat (ceil4 (int (length b))) - length b) (0 :: byte)"
  let ?l = "be32 (word_of_int (int (length b)))"
  have rd: "readInt32BE (pre @ ?l @ (b @ ?z @ post)) (int (length pre)) = Inr (int (length b))"
    using assms(1) by (intro readInt32BE_be32) simp_all
  have sl: "slice ((pre @ ?l) @ b @ (?z @ post)) (int (length (pre @ ?l)))
              (int (length (pre @ ?l)) + int (length b)) = b"
    by (rule slice_middle)
  have "(int (length pre) + 4) mod 4 = 0" using assms(2) by presburger
  from ceil4_shift [OF this, of "int (length b)"]
  have off: "ceil4 (int (length pre) + 4 + int (length b)) = int (length pre) + 4 + ceil4 (int (length b))" .
  show ?thesis
    using rd sl off by (simp add: length_be32 add.assoc)
qed

lemma parse_step_N:
  assumes "post \<noteq> []"
  shows "parse_loop (pre @ post) (CHR ''N'' # tags) (int (length pre)) acc
           = parse_loop (pre @ post) tags (int (length pre)) (acc @ [JNull])"
    and "parse_loop (pre @ post) (CHR ''T'' # tags) (int (length pre)) acc
           = parse_loop (pre @ post) tags (int (length pre)) (acc @ [JBool True])"
    and "parse_loop (pre @ post) (CHR ''F'' # tags) (int (length pre)) acc
           = parse_loop (pre @ post) tags (int (length pre)) (acc @ [JBool False])"
  using assms by simp_all


lemma length_padded_mod: "int (length (padded s)) mod 4 = 0"
  by (simp only: length_padded ceil4_mod)

lemma padded_nonempty: "padded s \<noteq> []"
  using padded_split [of s] by auto

lemma encode_wire_pack:
  assumes "encode_arg rt a = Inr b" "int (length b) mod 4 = 0" "data_tag (fst a) \<Longrightarrow> b \<noteq> []"
    "\<And>pre post tags acc. int (length pre) mod 4 = 0 \<Longrightarrow> data_tag (fst a) \<or> post \<noteq> [] \<Longrightarrow>
        parse_loop (pre @ b @ post) (fst a # tags) (int (length pre)) acc
          = parse_loop (pre @ b @ post) tags (int (length pre) + int (length b)) (acc @ [snd a])"
  shows "\<exists>b. encode_arg rt a = Inr b \<and> int (length b) mod 4 = 0 \<and> (data_tag (fst a) \<longrightarrow> b \<noteq> []) \<and>
           (\<forall>pre post tags acc. int (length pre) mod 4 = 0 \<longrightarrow> (data_tag (fst a) \<or> post \<noteq> []) \<longrightarrow>
              parse_loop (pre @ b @ post) (fst a # tags) (int (length pre)) acc
                = parse_loop (pre @ b @ post) tags (int (length pre) + int (length b)) (acc @ [snd a]))"
proof (intro exI [of _ b] conjI allI impI)
  show "encode_arg rt a = Inr b" by fact
  show "int (length b) mod 4 = 0" by fact
  show "b \<noteq> []" if "data_tag (fst a)" using that by (rule assms(3))
  show "parse_loop (pre @ b @ post) (fst a # tags) (int (length pre)) acc
          = parse_loop (pre @ b @ post) tags (int (length pre) + int (length b)) (acc @ [snd a])"
    if "int (length pre) mod 4 = 0" "data_tag (fst a) \<or> post \<noteq> []" for pre post tags acc
    using that by (rule assms(4))
qed

lemma encode_wire_arg:
  assumes "wire_arg a"
  shows "\<exists>b. encode_arg rt a = Inr b \<and> int (length b) mod 4 = 0 \<and> (data_tag (fst a) \<longrightarrow> b \<noteq> []) \<and>
           (\<forall>pre post tags acc. int (length pre) mod 4 = 0 \<longrightarrow> (data_tag (fst a) \<or> post \<noteq> []) \<longrightarrow>
              parse_loop (pre @ b @ post) (fst a # tags) (int (length pre)) acc
                = parse_loop (pre @ b @ post) tags (int (length pre) + int (length b)) (acc @ [snd a]))"
proof -
  obtain ty v where a: "a = (ty, v)" by (cases a)
  have fs: "fst a = ty" "snd a = v" by (simp_all add: a)
  show ?thesis
  proof (cases v)
    case (JNum x)
    with assms a obtain r where r: "x = Num r" "ty = CHR ''i''" "r = of_int \<lfloor>r\<rfloor>"
        "- 2147483648 \<le> r" "r \<le> 2147483647"
      by (cases x) (auto simp: wire_arg_def)
    define n where "n = \<lfloor>r\<rfloor>"
    have rn: "r = of_int n" using r(3) n_def by simp
    have rng: "- 2147483648 \<le> n" "n \<le> 2147483647"
      using r(4,5) n_def by linarith+
    have enc: "encode_arg rt a = Inr (be32 (word_of_int n))"
      using writeInt32BE_of_int [OF rng]
      by (simp add: a JNum r(1,2) rn encode_arg_def to_number_def)
    have v: "v = int_val n" by (simp add: JNum r(1) rn int_val_def)
    have "parse_loop (pre @ be32 (word_of_int n) @ post) (fst a # tags) (int (length pre)) acc
                = parse_loop (pre @ be32 (word_of_int n) @ post) tags
                    (int (length pre) + int (length (be32 (word_of_int n :: 32 word)))) (acc @ [snd a])"
      for pre post tags acc
      unfolding fs r(2) v length_be32 using parse_step_i [OF rng] by simp
    moreover have "int (length (be32 (word_of_int n :: 32 word))) mod 4 = 0"
        "be32 (word_of_int n :: 32 word) \<noteq> []"
      by (simp_all add: be32_def)
    ultimately show ?thesis
      using enc by (intro encode_wire_pack [of rt a "be32 (word_of_int n)"]) blast+
  next
    case (JStr s)
    with assms a have t: "ty = CHR ''s''" "ascii_text s" by (auto simp: wire_arg_def)
    have enc: "encode_arg rt a = Inr (padded s)"
      by (simp add: a JStr t(1) encode_arg_def)
    have "int (length pre) mod 4 = 0 \<Longrightarrow>
          parse_loop (pre @ padded s @ post) (fst a # tags) (int (length pre)) acc
                = parse_loop (pre @ padded s @ post) tags
                    (int (length pre) + int (length (padded s))) (acc @ [snd a])"
      for pre post tags acc
      unfolding fs t(1) JStr using parse_step_s [OF t(2)] by simp
    then show ?thesis
      using enc length_padded_mod [of s] padded_nonempty [of s]
      by (intro encode_wire_pack [of rt a "padded s"]) blast+
  next
    case (JBuf b)
    with assms a have t: "ty = CHR ''b''" "length b \<le> 2147483647" by (auto simp: wire_arg_def)
    define e where "e = be32 (word_of_int (int (length b))) @ b
                @ replicate (nat (ceil4 (int (length b))) - length b) 0"
    have w: "writeInt32BE (Num (of_nat (length b))) = Inr (be32 (word_of_int (int (length b))))"
      using writeInt32BE_of_int [of "int (length b)"] t(2) by simp
    have enc: "encode_arg rt a = Inr e"
      by (simp add: a JBuf t(1) encode_arg_def w e_def)
    have len: "int (length e) = 4 + ceil4 (int (length b))"
      using ceil4_ge [of "int (length b)"] by (simp add: length_be32 e_def)
    have m: "int (length e) mod 4 = 0"
      unfolding len using ceil4_mod [of "int (length b)"] by presburger
    have ne: "e \<noteq> []" using len ceil4_ge [of "int (length b)"] by auto
    have "int (length pre) mod 4 = 0 \<Longrightarrow>
          parse_loop (pre @ e @ post) (fst a # tags) (int (length pre)) acc
                = parse_loop (pre @ e @ post) tags
                    (int (length pre) + int (length e)) (acc @ [snd a])"
      for pre post tags acc
      unfolding fs t(1) JBuf len unfolding e_def using parse_step_b [OF t(2)] by simp
    then show ?thesis
      using enc m ne by (intro encode_wire_pack [of rt a e]) blast+
  next
    case JNull
    with assms a have t: "ty = CHR ''N''" by (auto simp: wire_arg_def)
    have enc: "encode_arg rt a = Inr []" by (simp add: a t encode_arg_def)
    have "post \<noteq> [] \<Longrightarrow>
          parse_loop (pre @ [] @ post) (fst a # tags) (int (length pre)) acc
                = parse_loop (pre @ [] @ post) tags
                    (int (length pre) + int (length ([] :: buffer))) (acc @ [snd a])"
      for pre post tags acc
      unfolding fs t JNull using parse_step_N(1) by simp
    moreover have "\<not> data_tag (fst a)" by (simp add: fs t data_tag_def)
    moreover have "int (length ([] :: buffer)) mod 4 = 0" by simp
    ultimately show ?thesis
      using enc by (intro encode_wire_pack [of rt a "[]"]) blast+
  next
    case (JBool b)
    with assms a have t: "ty = (if b then CHR ''T'' else CHR ''F'')" by (auto simp: wire_arg_def)
    have enc: "encode_arg rt a = Inr []" by (simp add: a t encode_arg_def)
    have "post \<noteq> [] \<Longrightarrow>
          parse_loop (pre @ [] @ post) (fst a # tags) (int (length pre)) acc
                = parse_loop (pre @ [] @ post) tags
                    (int (length pre) + int (length ([] :: buffer))) (acc @ [snd a])"
      for pre post tags acc
      unfolding fs t JBool using parse_step_N(2,3) by (cases b) simp_all
    moreover have "\<not> data_tag (fst a)" by (simp add: fs t data_tag_def)
    moreover have "int (length ([] :: buffer)) mod 4 = 0" by simp
    ultimately show ?thesis
      using enc by (intro encode_wire_pack [of rt a "[]"]) blast+
  next
    case (JBig n)
    with assms a show ?thesis by (simp add: wire_arg_def)
  qed
qed


lemma parse_encoded:
  assumes "list_all wire_arg args" "ends_with_data args"
  shows "\<exists>bs. encode_args rt args = Inr bs \<and> (args \<noteq> [] \<longrightarrow> bs \<noteq> []) \<and>
           (\<forall>pre acc. int (length pre) mod 4 = 0 \<longrightarrow>
              parse_loop (pre @ bs) (map fst args) (int (length pre)) acc = Inr (acc @ map snd args))"
  using assms
proof (induction args)
  case Nil
  show ?case by simp
next
  case (Cons a rest)
  have wa: "wire_arg a" and wr: "list_all wire_arg rest" using Cons.prems(1) by simp_all
  have er: "ends_with_data rest"
    using Cons.prems(2) by (cases rest) (simp_all add: ends_with_data_def)
  have dr: "data_tag (fst a) \<or> rest \<noteq> []"
    using Cons.prems(2) by (cases rest) (simp_all add: ends_with_data_def)
  from encode_wire_arg [OF wa, of rt] obtain b where
    bb: "encode_arg rt a = Inr b \<and> int (length b) mod 4 = 0 \<and> (data_tag (fst a) \<longrightarrow> b \<noteq> []) \<and>
           (\<forall>pre post tags acc. int (length pre) mod 4 = 0 \<longrightarrow> (data_tag (fst a) \<or> post \<noteq> []) \<longrightarrow>
              parse_loop (pre @ b @ post) (fst a # tags) (int (length pre)) acc
                = parse_loop (pre @ b @ post) tags (int (length pre) + int (length b)) (acc @ [snd a]))" ..
  note b = bb [THEN conjunct1] bb [THEN conjunct2, THEN conjunct1]
    bb [THEN conjunct2, THEN conjunct2, THEN conjunct1]
  note step = bb [THEN conjunct2, THEN conjunct2, THEN conjunct2, rule_format]
  from Cons.IH [OF wr er] obtain bs where
    bbs: "encode_args rt rest = Inr bs \<and> (rest \<noteq> [] \<longrightarrow> bs \<noteq> []) \<and>
           (\<forall>pre acc. int (length pre) mod 4 = 0 \<longrightarrow>
              parse_loop (pre @ bs) (map fst rest) (int (length pre)) acc = Inr (acc @ map snd rest))" ..
  note bs = bbs [THEN conjunct1] bbs [THEN conjunct2, THEN conjunct1]
  note ih = bbs [THEN conjunct2, THEN conjunct2, rule_format]
  have enc: "encode_args rt (a # rest) = Inr (b @ bs)" by (simp add: b(1) bs(1))
  have ne: "b @ bs \<noteq> []" using dr b(3) bs(2) by auto
  have "parse_loop (pre @ b @ bs) (map fst (a # rest)) (int (length pre)) acc
          = Inr (acc @ map snd (a # rest))" if p: "int (length pre) mod 4 = 0" for pre acc
  proof -
    have d: "data_tag (fst a) \<or> bs \<noteq> []" using dr bs(2) by blast
    have m: "int (length (pre @ b)) mod 4 = 0" using p b(2) by simp presburger
    have "parse_loop (pre @ b @ bs) (fst a # map fst rest) (int (length pre)) acc
            = parse_loop (pre @ b @ bs) (map fst rest) (int (length pre) + int (length b)) (acc @ [snd a])"
      by (rule step [OF p d])
    also have "\<dots> = parse_loop ((pre @ b) @ bs) (map fst rest) (int (length (pre @ b))) (acc @ [snd a])"
      by simp
    also have "\<dots> = Inr ((acc @ [snd a]) @ map snd rest)"
      by (rule ih [OF m])
    finally show ?thesis by simp
  qed
  then show ?case using enc ne by (intro exI [of _ "b @ bs"] conjI allI impI) simp_all
qed


lemma wire_arg_tag:
  "wire_arg a \<Longrightarrow> fst a \<in> {CHR ''i'', CHR ''s'', CHR ''b'', CHR ''N'', CHR ''T'', CHR ''F''}"
  by (cases a) (auto simp: wire_arg_def split: jsval.splits jsnum.splits if_splits)

lemma tag_chars_ascii:
  "c \<in> {CHR ''i'', CHR ''s'', CHR ''b'', CHR ''N'', CHR ''T'', CHR ''F'', CHR '',''}
     \<Longrightarrow> c \<noteq> CHR 0x00 \<and> of_char c < (128::nat)"
  by auto

lemma tags_ascii: "list_all wire_arg args \<Longrightarrow> ascii_text (CHR '','' # map fst args)"
proof -
  assume a: "list_all wire_arg args"
  have "\<forall>c \<in> set (CHR '','' # map fst args). c \<noteq> CHR 0x00 \<and> of_char c < (128::nat)"
  proof
    fix c assume "c \<in> set (CHR '','' # map fst args)"
    then have "c \<in> {CHR ''i'', CHR ''s'', CHR ''b'', CHR ''N'', CHR ''T'', CHR ''F'', CHR '',''}"
      using a wire_arg_tag by (auto simp: list_all_iff)
    then show "c \<noteq> CHR 0x00 \<and> of_char c < (128::nat)" by (rule tag_chars_ascii)
  qed
  then show ?thesis unfolding ascii_text_def list_all_iff .
qed

lemma ascii_text_tl: "ascii_text (c # s) \<Longrightarrow> ascii_text s"
  by (simp add: ascii_text_def)

lemma toString_tags:
  assumes "ascii_text (c # ts)"
  shows "toString_ascii (pre @ padded (c # ts) @ post) (int (length pre) + 1)
           (int (length pre) + int (length (c # ts))) = ts"
proof -
  obtain z where z: "padded (c # ts) = map byte_of_char (c # ts) @ 0 # z"
    using padded_split by blast
  have "toString_ascii (pre @ padded (c # ts) @ post) (int (length pre) + 1)
           (int (length pre) + int (length (c # ts)))
      = map ascii_char (take (length ts) (drop (length pre + 1) (pre @ padded (c # ts) @ post)))"
    by (subst toString_ascii_eq) (simp_all add: z nat_add_distrib)
  also have "\<dots> = ts"
    using ascii_text_roundtrip [OF ascii_text_tl [OF assms]] by (simp add: z)
  finally show ?thesis .
qed

text \<open>The envelope: address block, then type-tag block, then the argument bytes.\<close>

lemma parseOscArgs_envelope:
  assumes "ascii_text address" "ascii_text (CHR '','' # tags)"
  shows "indexOf (padded address @ padded (CHR '','' # tags) @ bs) 0 0 = int (length address)"
    and "toString_ascii (padded address @ padded (CHR '','' # tags) @ bs) 0 (int (length address))
           = address"
    and "parseOscArgs (padded address @ padded (CHR '','' # tags) @ bs) (length address)
           = parse_loop (padded address @ padded (CHR '','' # tags) @ bs) tags
               (int (length (padded address @ padded (CHR '','' # tags)))) []"
    and "int (length (padded address @ padded (CHR '','' # tags))) mod 4 = 0"
proof -
  let ?tags = "CHR '','' # tags"
  let ?A = "padded address" and ?T = "padded ?tags"
  let ?buf = "?A @ ?T @ bs"
  show "indexOf ?buf 0 0 = int (length address)"
    using indexOf_padded [OF assms(1), of "[]" "?T @ bs"] by simp
  show "toString_ascii ?buf 0 (int (length address)) = address"
    using toString_padded [OF assms(1), of "[]" "?T @ bs"] by simp
  have off: "ceil4 (int (length address) + 1) = int (length ?A)"
    by (simp only: length_padded)
  have lt: "\<not> int (length ?A) \<ge> int (length ?buf)"
    using padded_nonempty [of ?tags] by (cases ?T) simp_all
  have tte: "indexOf ?buf 0 (int (length ?A)) = int (length ?A) + int (length ?tags)"
    by (rule indexOf_padded [OF assms(2)])
  have ne: "int (length ?A) + int (length ?tags) \<noteq> - 1" by linarith
  have ts: "toString_ascii ?buf (int (length ?A) + 1) (int (length ?A) + int (length ?tags)) = tags"
    by (rule toString_tags [OF assms(2)])
  have off2: "ceil4 (int (length ?A) + int (length ?tags) + 1) = int (length (?A @ ?T))"
    using ceil4_shift [OF length_padded_mod [of address], of "int (length ?tags) + 1"]
    by (simp add: length_padded add.assoc)
  show "int (length (?A @ ?T)) mod 4 = 0"
    using length_padded_mod [of address] length_padded_mod [of ?tags] by simp presburger
  show "parseOscArgs ?buf (length address)
          = parse_loop ?buf tags (int (length (?A @ ?T))) []"
    unfolding parseOscArgs_def Let_def off tte ts off2 using lt ne by simp
qed

text \<open>
  C1 (amended): for every address and every argument list whose address and \<open>s\<close> strings
  are made of 7-bit characters other than NUL, whose arguments have the types \<open>i\<close> (an
  integer in the range of \<open>int32\<close>), \<open>s\<close>, \<open>b\<close>, \<open>N\<close>, \<open>T\<close> or \<open>F\<close>, and whose last
  argument, if any, carries data (\<open>i\<close>, \<open>s\<close> or \<open>b\<close>), the encoder returns a buffer whose
  first NUL ends the address, whose address reads back as it was, and whose arguments
  decode to the same values.
\<close>

theorem osc_roundtrip:
  assumes "ascii_text address" "list_all wire_arg args" "ends_with_data args"
  shows "\<exists>buf. buildOSCMessage rt address args = Inr buf \<and>
           indexOf buf 0 0 = int (length address) \<and>
           toString_ascii buf 0 (int (length address)) = address \<and>
           parseOscArgs buf (length address) = Inr (map snd args)"
proof -
  let ?tags = "CHR '','' # map fst args"
  let ?A = "padded address" and ?T = "padded ?tags"
  from parse_encoded [OF assms(2,3), of rt] obtain bs where
    bbs: "encode_args rt args = Inr bs \<and> (args \<noteq> [] \<longrightarrow> bs \<noteq> []) \<and>
           (\<forall>pre acc. int (length pre) mod 4 = 0 \<longrightarrow>
              parse_loop (pre @ bs) (map fst args) (int (length pre)) acc = Inr (acc @ map snd args))" ..
  note enc = bbs [THEN conjunct1]
  note loop = bbs [THEN conjunct2, THEN conjunct2, rule_format]
  let ?buf = "?A @ ?T @ bs"
  have build: "buildOSCMessage rt address args = Inr ?buf"
    by (simp add: buildOSCMessage_def enc)
  have ta: "ascii_text ?tags" by (rule tags_ascii [OF assms(2)])
  note env = parseOscArgs_envelope(1-3) [OF assms(1) ta, of bs]
  have lp: "parse_loop ((?A @ ?T) @ bs) (map fst args) (int (length (?A @ ?T))) []
              = Inr ([] @ map snd args)"
    by (rule loop [OF parseOscArgs_envelope(4) [OF assms(1) ta]])
  have "parseOscArgs ?buf (length address) = Inr (map snd args)"
    unfolding env(3) using lp by simp
  then show ?thesis using build env(1,2) by blast
qed

lemma replicate_numeral: "replicate (numeral k) x = x # replicate (pred_numeral k) x"
  by (simp add: numeral_eq_Suc)

lemma encode_arg_int:
  "- 2147483648 \<le> n \<Longrightarrow> n \<le> 2147483647 \<Longrightarrow>
     encode_arg rt (CHR ''i'', int_val n) = Inr (be32 (word_of_int n))"
  by (simp add: encode_arg_def int_val_def to_number_def writeInt32BE_of_int)

theorem osc_roundtrip_witness:
  "ascii_text ''/a'' \<and> list_all wire_arg example_args \<and> ends_with_data example_args \<and>
   (\<exists>buf. buildOSCMessage example_runtime ''/a'' example_args = Inr buf \<and>
           indexOf buf 0 0 = int (length ''/a'') \<and>
           toString_ascii buf 0 (int (length ''/a'')) = ''/a'' \<and>
           parseOscArgs buf (length ''/a'') = Inr (map snd example_args))"
proof -
  have h1: "ascii_text ''/a''" by (simp add: ascii_text_def)
  have h2: "list_all wire_arg example_args"
    by (simp add: example_args_def wire_arg_def int_val_def ascii_text_def)
  have h3: "ends_with_data example_args"
    by (simp add: example_args_def ends_with_data_def data_tag_def)
  show ?thesis
    using osc_roundtrip [OF h1 h2 h3, of example_runtime] h1 h2 h3 by blast
qed

text \<open>
  The claim C1 as stated fails: a \<open>t\<close> argument is encoded but never decoded, a trailing
  \<open>N\<close> is dropped by the check of the offset against the buffer end, and a character
  beyond 7 bits in the address comes back with its highest bit unset.
\<close>

theorem osc_roundtrip_counterexample:
  "buildOSCMessage example_runtime ''/a'' [(CHR ''t'', JBig 5)]
      = Inr [47, 97, 0, 0, 44, 116, 0, 0, 0, 0, 0, 0, 0, 0, 0, 5]
   \<and> parseOscArgs [47, 97, 0, 0, 44, 116, 0, 0, 0, 0, 0, 0, 0, 0, 0, 5] 2 = Inr []
   \<and> buildOSCMessage example_runtime ''/a'' [(CHR ''i'', int_val 5), (CHR ''N'', JNull)]
      = Inr [47, 97, 0, 0, 44, 105, 78, 0, 0, 0, 0, 5]
   \<and> parseOscArgs [47, 97, 0, 0, 44, 105, 78, 0, 0, 0, 0, 5] 2 = Inr [int_val 5]
   \<and> buildOSCMessage example_runtime [CHR 0xE9] [] = Inr [233, 0, 0, 0, 44, 0, 0, 0]
   \<and> toString_ascii [233, 0, 0, 0, 44, 0, 0, 0] 0 (indexOf [233, 0, 0, 0, 44, 0, 0, 0] 0 0) = ''i''"
proof (intro conjI)
  show "buildOSCMessage example_runtime ''/a'' [(CHR ''t'', JBig 5)]
      = Inr [47, 97, 0, 0, 44, 116, 0, 0, 0, 0, 0, 0, 0, 0, 0, 5]"
    by code_simp
  show "parseOscArgs [47, 97, 0, 0, 44, 116, 0, 0, 0, 0, 0, 0, 0, 0, 0, 5] 2 = Inr []"
    by code_simp
  show "buildOSCMessage example_runtime ''/a'' [(CHR ''i'', int_val 5), (CHR ''N'', JNull)]
      = Inr [47, 97, 0, 0, 44, 105, 78, 0, 0, 0, 0, 5]"
    by (simp add: buildOSCMessage_def encode_arg_int padded_def ceil4_def byte_of_char_def
          be32_def replicate_numeral) (simp add: encode_arg_def)
  show "parseOscArgs [47, 97, 0, 0, 44, 105, 78, 0, 0, 0, 0, 5] 2 = Inr [int_val 5]"
    by code_simp
  show "buildOSCMessage example_runtime [CHR 0xE9] [] = Inr [233, 0, 0, 0, 44, 0, 0, 0]"
    by code_simp
  show "toString_ascii [233, 0, 0, 0, 44, 0, 0, 0] 0 (indexOf [233, 0, 0, 0, 44, 0, 0, 0] 0 0) = ''i''"
    by code_simp
qed


section \<open>The decoder on arbitrary input\<close>

lemma parse_loop_past_end:
  "int (length buf) \<le> offset \<Longrightarrow> parse_loop buf tags offset args = Inr args"
  by (cases tags) simp_all

lemma parse_loop_extends:
  "parse_loop buf tags offset args = Inr res \<Longrightarrow> \<exists>more. res = args @ more"
proof (induction tags arbitrary: offset args)
  case Nil
  then show ?case by simp
next
  case (Cons tag tags)
  have step: "\<exists>more. res = args @ more"
    if "parse_loop buf tags offset' (args @ extra) = Inr res" for offset' extra
    using Cons.IH [OF that] by auto
  show ?case
  proof (cases "offset \<ge> int (length buf)")
    case True
    with Cons.prems show ?thesis by simp
  next
    case False
    with Cons.prems show ?thesis
      using step [of _ "[]"] step
      by (simp add: Let_def split: if_splits sum.splits)
  qed
qed

lemma parse_loop_error:
  "parse_loop buf tags offset args = Inl e \<Longrightarrow>
     \<exists>tag \<in> set tags. tag = CHR ''i'' \<or> tag = CHR ''f'' \<or> tag = CHR ''b''"
proof (induction tags arbitrary: offset args)
  case Nil
  then show ?case by simp
next
  case (Cons tag tags)
  show ?case
  proof (cases "tag = CHR ''i'' \<or> tag = CHR ''f'' \<or> tag = CHR ''b''")
    case True
    then show ?thesis by auto
  next
    case False
    then obtain offset' args' where "parse_loop buf tags offset' args' = Inl e"
      using Cons.prems by (auto simp: Let_def split: if_splits)
    with Cons.IH [of offset' args'] show ?thesis by auto
  qed
qed

lemma read_u32_raises:
  "offset < 0 \<or> int (length buf) < offset + 4 \<Longrightarrow> read_u32 buf offset = Inl JsError"
  by (auto simp: read_u32_def)

lemma parse_loop_raises:
  assumes "tag = CHR ''i'' \<or> tag = CHR ''f'' \<or> tag = CHR ''b''"
    and "offset < int (length buf)" and "offset < 0 \<or> int (length buf) < offset + 4"
  shows "parse_loop buf (tag # tags) offset args = Inl JsError"
  using assms(1,2) read_u32_raises [OF assms(3)]
  by (auto simp: readInt32BE_def readFloatBE_def)

lemma parseOscArgs_no_terminator:
  assumes "0 \<notin> set (drop (nat (ceil4 (int addressEnd + 1))) buf)"
  shows "parseOscArgs buf addressEnd = Inr []"
proof -
  have "0 \<le> ceil4 (int addressEnd + 1)"
    using ceil4_ge [of "int addressEnd + 1"] by linarith
  then have "indexOf buf 0 (ceil4 (int addressEnd + 1)) = - 1"
    using scan_none [OF assms] by (simp add: indexOf_def)
  then show ?thesis by (simp add: parseOscArgs_def Let_def)
qed

lemma parseOscArgs_error:
  assumes "parseOscArgs buf addressEnd = Inl e"
  shows "\<exists>tag \<in> set (toString_ascii buf (ceil4 (int addressEnd + 1) + 1)
                        (indexOf buf 0 (ceil4 (int addressEnd + 1)))).
           tag = CHR ''i'' \<or> tag = CHR ''f'' \<or> tag = CHR ''b''"
  using assms parse_loop_error
  by (auto simp: parseOscArgs_def Let_def split: if_splits)

text \<open>
  C6 (amended): the argument decoder always terminates. If no NUL follows the padded
  address it returns the empty list; if the running offset has reached or passed the
  buffer end when a tag is examined it returns the arguments parsed so far; a normal
  return always extends the arguments parsed so far; but it raises when an \<open>i\<close>, \<open>f\<close> or
  \<open>b\<close> tag is examined at an offset inside the buffer with fewer than 4 bytes left (or at
  a negative offset), and only such a tag can make it raise.
\<close>

theorem parse_fails_soft:
  "(0 \<notin> set (drop (nat (ceil4 (int addressEnd + 1))) buf) \<longrightarrow> parseOscArgs buf addressEnd = Inr [])
   \<and> (int (length buf) \<le> offset \<longrightarrow> parse_loop buf tags offset args = Inr args)
   \<and> (parse_loop buf tags offset args = Inr res \<longrightarrow> (\<exists>more. res = args @ more))
   \<and> (parseOscArgs buf addressEnd = Inl e \<longrightarrow>
        (\<exists>tag \<in> set (toString_ascii buf (ceil4 (int addressEnd + 1) + 1)
                        (indexOf buf 0 (ceil4 (int addressEnd + 1)))).
           tag = CHR ''i'' \<or> tag = CHR ''f'' \<or> tag = CHR ''b''))
   \<and> ((tag = CHR ''i'' \<or> tag = CHR ''f'' \<or> tag = CHR ''b'') \<and> offset < int (length buf)
         \<and> (offset < 0 \<or> int (length buf) < offset + 4)
        \<longrightarrow> parse_loop buf (tag # tags) offset args = Inl JsError)"
  using parseOscArgs_no_terminator [of addressEnd buf] parse_loop_past_end [of buf offset tags args]
    parse_loop_extends [of buf tags offset args res] parseOscArgs_error [of buf addressEnd e]
    parse_loop_raises [of tag offset buf tags args]
  by blast

theorem parse_fails_soft_witness:
  "0 \<notin> set (drop (nat (ceil4 (int 2 + 1))) [47, 97, 0, 0, 44, 105, 1, 1 :: byte])
   \<and> parseOscArgs [47, 97, 0, 0, 44, 105, 1, 1] 2 = Inr []
   \<and> int (length [47, 97, 0, 0, 44, 105, 0, 0, 1 :: byte]) \<le> 9
   \<and> parse_loop [47, 97, 0, 0, 44, 105, 0, 0, 1] ''s'' 9 [JNull] = Inr [JNull]
   \<and> parseOscArgs [47, 97, 0, 0, 44, 105, 0, 0, 1] 2 = Inl JsError
   \<and> 8 < int (length [47, 97, 0, 0, 44, 105, 0, 0, 1 :: byte])
   \<and> int (length [47, 97, 0, 0, 44, 105, 0, 0, 1 :: byte]) < 8 + 4
   \<and> parse_loop [47, 97, 0, 0, 44, 105, 0, 0, 1] ''i'' 8 [] = Inl JsError"
proof -
  have h1: "0 \<notin> set (drop (nat (ceil4 (int 2 + 1))) [47, 97, 0, 0, 44, 105, 1, 1 :: byte])"
    by (simp add: ceil4_def)
  have h2: "int (length [47, 97, 0, 0, 44, 105, 0, 0, 1 :: byte]) \<le> 9" by simp
  have h3: "8 < int (length [47, 97, 0, 0, 44, 105, 0, 0, 1 :: byte])"
    "int (length [47, 97, 0, 0, 44, 105, 0, 0, 1 :: byte]) < 8 + 4" by simp_all
  have e: "parseOscArgs [47, 97, 0, 0, 44, 105, 0, 0, 1] 2 = Inl JsError" by code_simp
  show ?thesis
    using parse_fails_soft [of 2 "[47, 97, 0, 0, 44, 105, 1, 1]" 9 "''s''" "[JNull]" "[JNull]" JsError "CHR ''i''"]
      parse_fails_soft [of 2 "[47, 97, 0, 0, 44, 105, 0, 0, 1]" 9 "''s''" "[JNull]" "[JNull]" JsError "CHR ''i''"]
      parse_fails_soft [of 2 "[47, 97, 0, 0, 44, 105, 0, 0, 1]" 8 "[]" "[]" "[]" JsError "CHR ''i''"]
      h1 h2 h3 e
    by simp
qed

text \<open>
  The claim C6 as stated fails: with the tag \<open>i\<close> and one byte left the decoder raises.
\<close>

theorem parse_raises_counterexample:
  "parseOscArgs [47, 97, 0, 0, 44, 105, 0, 0, 1] 2 = Inl JsError"
  by code_simp

section \<open>The binary frame header\<close>

lemma length_writeInt32BE: "writeInt32BE v = Inr b \<Longrightarrow> length b = 4"
  by (auto simp: writeInt32BE_def length_be32 split: jsnum.splits if_splits)

lemma u16_bytes:
  assumes "n \<le> 65535"
  shows "unat (ucast (drop_bit 8 (word_of_nat n :: 16 word)) :: byte) * 256
          + unat (ucast (word_of_nat n :: 16 word) :: byte) = n"
proof -
  have u: "unat (word_of_nat n :: 16 word) = n"
    using assms by (simp add: unat_of_nat)
  have a: "unat (ucast (word_of_nat n :: 16 word) :: byte) = n mod 256"
    using u by (simp add: unsigned_ucast_eq take_bit_eq_mod)
  have "unat (drop_bit 8 (word_of_nat n :: 16 word)) = drop_bit 8 n"
    by (simp only: unat_drop_bit_eq u)
  then have b: "unat (ucast (drop_bit 8 (word_of_nat n :: 16 word)) :: byte) = n div 256"
    using assms by (simp only: unsigned_ucast_eq take_bit_eq_mod drop_bit_eq_div) simp
  show ?thesis unfolding a b by simp
qed

lemma writeUInt16BE_Inr:
  "writeUInt16BE n = Inr b \<Longrightarrow> n \<le> 65535 \<and> length b = 2 \<and> unat (b ! 0) * 256 + unat (b ! 1) = n"
  using u16_bytes [of n] by (auto simp: writeUInt16BE_def split: if_splits)

lemma buildDataMessage_Inr:
  assumes "buildDataMessage rt st snk audio = Inr msg"
  shows "\<exists>sid sq lenb. msg = [0x81, 0, word_of_int (sinkId snk) AND 0xFF, word_of_int (sourceId st) AND 0xFF]
            @ sid @ sq @ [0, 0] @ lenb @ audio \<and> length sid = 4 \<and> length sq = 4 \<and> length lenb = 2
            \<and> writeInt32BE (Num (of_int (sequence st))) = Inr sq
            \<and> writeUInt16BE (length audio) = Inr lenb"
  using assms
  by (auto simp: buildDataMessage_def kAooMsgTypeSink_def kAooBinMsgDomainBit_def kAooBinMsgCmdData_def
       split: sum.splits dest: length_writeInt32BE writeUInt16BE_Inr)

text \<open>
  C2 (amended): every datagram that \<open>_buildDataMessage\<close> returns has byte 0 equal to
  \<open>0x81\<close>, byte 1 equal to 0, bytes 12 and 13 zero, bytes 14 and 15 equal to the payload
  length (big-endian), which is at most 65535, and the payload from byte 16 on; on a
  payload longer than 65535 bytes the encoder raises and returns no datagram.
\<close>

theorem frame_header:
  "(buildDataMessage rt st snk audio = Inr msg \<longrightarrow>
      msg ! 0 = 0x81 \<and> msg ! 1 = 0 \<and> msg ! 12 = 0 \<and> msg ! 13 = 0 \<and>
      unat (msg ! 14) * 256 + unat (msg ! 15) = length audio \<and>
      length audio \<le> 65535 \<and> drop 16 msg = audio) \<and>
   (length audio > 65535 \<longrightarrow> buildDataMessage rt st snk audio = Inl JsError)"
proof (intro conjI impI)
  assume big: "length audio > 65535"
  show "buildDataMessage rt st snk audio = Inl JsError"
    using big by (simp add: buildDataMessage_def writeUInt16BE_def split: sum.splits error.splits) (metis error.exhaust)
next
  assume a: "buildDataMessage rt st snk audio = Inr msg"
  from buildDataMessage_Inr [OF a] obtain sid sq lenb where
    m: "msg = [0x81, 0, word_of_int (sinkId snk) AND 0xFF, word_of_int (sourceId st) AND 0xFF]
            @ sid @ sq @ [0, 0] @ lenb @ audio"
    and l: "length sid = 4" "length sq = 4" "length lenb = 2"
    and w: "writeUInt16BE (length audio) = Inr lenb" by blast
  from writeUInt16BE_Inr [OF w] have n: "length audio \<le> 65535" "unat (lenb ! 0) * 256 + unat (lenb ! 1) = length audio" by auto
  show "msg ! 0 = 0x81" "msg ! 1 = 0" by (simp_all add: m)
  show "msg ! 12 = 0" "msg ! 13 = 0" using l by (simp_all add: m nth_append)
  show "unat (msg ! 14) * 256 + unat (msg ! 15) = length audio" using l n by (simp add: m nth_append)
  show "length audio \<le> 65535" by fact
  show "drop 16 msg = audio" using l by (simp add: m)
qed



lemma example_session_eq:
  "example_session =
     \<lparr>channels = 2, sampleRate = 48000, blockSize = 4, sourceId = 1,
       sinks = [((''127.0.0.1'', 9999, 1), example_sink)],
       sequence = 0, streamId = int_val 1000, isStreaming = False,
       formatId = 0, sinkVersion = JStr ''2.0'', startSent = False,
       detectedSampleRate = None, sampleBuffer = [], sent = []\<rparr>"
  by (simp add: example_session_def example_sink_def new_source_def addSink_def option_or_def)

lemma example_frame:
  "buildDataMessage example_runtime example_session example_sink [1, 2, 3, 4]
     = Inr [0x81, 0, 1, 1, 0, 0, 3, 232, 0, 0, 0, 0, 0, 0, 0, 4, 1, 2, 3, 4]"
  by (simp add: example_session_eq example_sink_def buildDataMessage_def to_number_def
        int_val_def writeInt32BE_def trunc_def be32_def writeUInt16BE_def
        kAooMsgTypeSink_def kAooBinMsgDomainBit_def kAooBinMsgCmdData_def)

theorem frame_header_witness:
  "buildDataMessage example_runtime example_session example_sink [1, 2, 3, 4]
     = Inr [0x81, 0, 1, 1, 0, 0, 3, 232, 0, 0, 0, 0, 0, 0, 0, 4, 1, 2, 3, 4]
   \<and> [0x81, 0, 1, 1, 0, 0, 3, 232, 0, 0, 0, 0, 0, 0, 0, 4, 1, 2, 3, 4 :: byte] ! 14 = 0
   \<and> [0x81, 0, 1, 1, 0, 0, 3, 232, 0, 0, 0, 0, 0, 0, 0, 4, 1, 2, 3, 4 :: byte] ! 15 = 4
   \<and> length (replicate 65536 (0 :: byte)) > 65535
   \<and> buildDataMessage example_runtime example_session example_sink (replicate 65536 0)
       = Inl JsError"
  using frame_header [of example_runtime example_session example_sink "[1, 2, 3, 4]"
      "[0x81, 0, 1, 1, 0, 0, 3, 232, 0, 0, 0, 0, 0, 0, 0, 4, 1, 2, 3, 4]"]
    frame_header [of example_runtime example_session example_sink "replicate 65536 0"]
    example_frame
  by simp

text \<open>
  The claim C2 as stated fails: on a payload of 65536 bytes the length field is not
  truncated to 0; the encoder raises and there is no datagram.
\<close>

theorem frame_length_counterexample:
  "buildDataMessage example_runtime example_session example_sink (replicate 65536 0)
     = Inl JsError"
  by (simp add: example_session_eq buildDataMessage_def to_number_def int_val_def
        writeInt32BE_def trunc_def be32_def writeUInt16BE_def)

section \<open>Interleaving and draining\<close>

lemma push_samples_eq: "push_samples l r buf = buf @ interleaved l r"
proof -
  have f: "foldl (\<lambda>b i. b @ [array_get l i] @ [array_get r i]) buf is
          = buf @ concat (map (\<lambda>i. [array_get l i, array_get r i]) is)" for "is" buf
    by (induction "is" arbitrary: buf) simp_all
  have m: "map (\<lambda>i. [array_get l i, array_get r i]) [0..<length l]
               = map (\<lambda>i. [Some (l ! i), array_get r i]) [0..<length l]"
    by (simp add: array_get_def)
  show ?thesis unfolding push_samples_def interleaved_def f m ..
qed

lemma length_interleaved: "length (interleaved l r) = 2 * length l"
  by (simp add: interleaved_def length_concat sum_list_triv comp_def)

lemma interleaved_nth:
  assumes "i < length l"
  shows "interleaved l r ! (2 * i) = Some (l ! i)" "interleaved l r ! (2 * i + 1) = array_get r i"
proof -
  have g: "concat (map (\<lambda>i. [f i, g i]) [0..<n]) ! (2 * i) = f i \<and>
           concat (map (\<lambda>i. [f i, g i]) [0..<n]) ! (2 * i + 1) = g i" if "i < n" for f g :: "nat \<Rightarrow> sample" and n
    using that
  proof (induction n)
    case 0
    then show ?case by simp
  next
    case (Suc n)
    have len: "length (concat (map (\<lambda>i. [f i, g i]) [0..<n])) = 2 * n"
      by (simp add: length_concat sum_list_triv comp_def)
    show ?case
    proof (cases "i < n")
      case True
      with Suc.IH len show ?thesis by (simp add: nth_append)
    next
      case False
      with Suc.prems have "i = n" by simp
      with len show ?thesis by (simp add: nth_append)
    qed
  qed
  from g [OF assms, of "\<lambda>i. Some (l ! i)" "array_get r"]
  show "interleaved l r ! (2 * i) = Some (l ! i)" "interleaved l r ! (2 * i + 1) = array_get r i"
    by (simp_all add: interleaved_def)
qed

lemma interleaved_take: "interleaved l r = interleaved l (take (length l) r)"
proof -
  have "map (\<lambda>i. [Some (l ! i), array_get r i]) [0..<length l]
      = map (\<lambda>i. [Some (l ! i), array_get (take (length l) r) i]) [0..<length l]"
    by (rule map_cong) (simp_all add: array_get_def)
  then show ?thesis by (simp only: interleaved_def)
qed


text \<open>What \<open>_buildDataMessage\<close> returns.\<close>

lemma frame_of_buildDataMessage:
  assumes "buildDataMessage rt st snk audio = Inr msg"
  shows "is_frame msg" "frame_sequence msg = sequence st" "frame_payload msg = audio"
proof -
  from buildDataMessage_Inr [OF assms] obtain sid sq lenb where
    m: "msg = [0x81, 0, word_of_int (sinkId snk) AND 0xFF, word_of_int (sourceId st) AND 0xFF]
            @ sid @ sq @ [0, 0] @ lenb @ audio"
    and l: "length sid = 4" "length sq = 4" "length lenb = 2"
    and w: "writeInt32BE (Num (of_int (sequence st))) = Inr sq" by blast
  show "is_frame msg" by (simp add: m is_frame_def kAooBinMsgDomainBit_def)
  show "frame_payload msg = audio" using l by (simp add: m frame_payload_def)
  from w have rng: "- 2147483648 \<le> sequence st" "sequence st \<le> 2147483647"
    and sq: "sq = be32 (word_of_int (sequence st))"
    by (auto simp: writeInt32BE_def trunc_of_int split: if_splits)
  have "frame_sequence msg = sint (u32_of_bytes (sq ! 0) (sq ! 1) (sq ! 2) (sq ! 3))"
    using l by (simp add: m frame_sequence_def nth_append)
  also have "\<dots> = sint (word_of_int (sequence st) :: 32 word)"
    by (simp add: sq be32_def u32_of_be32)
  also have "\<dots> = sequence st"
    by (rule sint_word_of_int_32 [OF rng])
  finally show "frame_sequence msg = sequence st" .
qed

lemma buildDataMessage_sink:
  "buildDataMessage rt st s1 audio = Inl e \<Longrightarrow> buildDataMessage rt st s2 audio = Inl e"
  by (auto simp: buildDataMessage_def split: sum.splits)

lemma buildDataMessage_sent:
  "buildDataMessage rt (st\<lparr>sent := x\<rparr>) snk audio = buildDataMessage rt st snk audio"
  by (simp add: buildDataMessage_def cong: sum.case_cong)


text \<open>The loop over the sinks sends to all of them or raises at the first.\<close>

lemma send_each_effect:
  "\<exists>msgs. snd (send_each rt ss audio st) = st\<lparr>sent := sent st @ msgs\<rparr> \<and>
     list_all (\<lambda>d. is_frame (fst d) \<and> frame_sequence (fst d) = sequence st
                    \<and> frame_payload (fst d) = audio) msgs \<and>
     length msgs = (if fst (send_each rt ss audio st) = None then length ss else 0)"
proof (cases ss)
  case Nil
  then show ?thesis by (intro exI [of _ "[]"]) simp
next
  case (Cons s0 rest)
  show ?thesis
  proof (cases "buildDataMessage rt st s0 audio")
    case (Inl e)
    then show ?thesis by (intro exI [of _ "[]"]) (simp add: Cons)
  next
    case (Inr m0)
    have ok: "\<exists>m. buildDataMessage rt st s audio = Inr m" for s
      using buildDataMessage_sink [of rt st s audio _ s0] Inr
      by (cases "buildDataMessage rt st s audio") auto
    have gen: "\<exists>msgs. snd (send_each rt ss' audio (st\<lparr>sent := sent st @ pre\<rparr>))
                      = st\<lparr>sent := sent st @ pre @ msgs\<rparr> \<and>
        list_all (\<lambda>d. is_frame (fst d) \<and> frame_sequence (fst d) = sequence st
                    \<and> frame_payload (fst d) = audio) msgs \<and>
        length msgs = length ss' \<and>
        fst (send_each rt ss' audio (st\<lparr>sent := sent st @ pre\<rparr>)) = None" for ss' pre
    proof (induction ss' arbitrary: pre)
      case Nil
      show ?case by (intro exI [of _ "[]"]) simp
    next
      case (Cons s ss')
      from ok obtain m where m: "buildDataMessage rt st s audio = Inr m" by blast
      from Cons.IH [of "pre @ [(m, port s, host s)]"] obtain msgs where
        ih: "snd (send_each rt ss' audio (st\<lparr>sent := sent st @ pre @ [(m, port s, host s)]\<rparr>))
                      = st\<lparr>sent := sent st @ (pre @ [(m, port s, host s)]) @ msgs\<rparr>"
          "list_all (\<lambda>d. is_frame (fst d) \<and> frame_sequence (fst d) = sequence st
                    \<and> frame_payload (fst d) = audio) msgs"
          "length msgs = length ss'"
          "fst (send_each rt ss' audio (st\<lparr>sent := sent st @ pre @ [(m, port s, host s)]\<rparr>)) = None"
        by auto
      show ?case
        using ih frame_of_buildDataMessage [OF m]
        by (intro exI [of _ "(m, port s, host s) # msgs"]) (simp add: buildDataMessage_sent m)
    qed
    from gen [of ss "[]"] show ?thesis by auto
  qed
qed


lemma seq_at_0: "0 \<le> s \<Longrightarrow> s < 0x7FFFFFFF \<Longrightarrow> seq_at s 0 = s"
  by (simp add: seq_at_def)

lemma seq_at_range: "0 \<le> seq_at s j" "seq_at s j < 0x7FFFFFFF"
  by (simp_all add: seq_at_def)

lemma seq_at_next:
  assumes "0 \<le> s" "s < 0x7FFFFFFF"
  shows "seq_at (if s + 1 \<ge> 0x7FFFFFFF then 0 else s + 1) j = seq_at s (Suc j)"
proof (cases "s + 1 \<ge> 0x7FFFFFFF")
  case True
  with assms have "s = 0x7FFFFFFF - 1" by simp
  then show ?thesis by (simp add: seq_at_def)
next
  case False
  have "s + 1 + int j = s + int (Suc j)" by simp
  with False show ?thesis by (simp only: seq_at_def if_False)
qed

lemma sendBlock_fail:
  assumes "fst (sendBlock rt block st) = Some e"
  shows "snd (sendBlock rt block st) = st"
proof -
  let ?se = "send_each rt (map snd (sinks st)) (concat (map writeFloatBE block)) st"
  obtain r st' where se: "?se = (r, st')" by (cases ?se)
  from assms have r: "r = Some e" by (cases r) (simp_all add: sendBlock_def se Let_def)
  from send_each_effect [of rt "map snd (sinks st)" "concat (map writeFloatBE block)" st]
  have "st' = st" by (auto simp: se r)
  then show ?thesis by (simp add: sendBlock_def se r)
qed

lemma sendBlock_ok:
  assumes "fst (sendBlock rt block st) = None"
  shows "\<exists>msgs. snd (sendBlock rt block st)
            = st\<lparr>sent := sent st @ msgs,
                 sequence := (if sequence st + 1 \<ge> 0x7FFFFFFF then 0 else sequence st + 1)\<rparr> \<and>
          list_all (\<lambda>d. is_frame (fst d) \<and> frame_sequence (fst d) = sequence st
                    \<and> frame_payload (fst d) = concat (map writeFloatBE block)) msgs \<and>
          length msgs = length (sinks st)"
proof -
  let ?se = "send_each rt (map snd (sinks st)) (concat (map writeFloatBE block)) st"
  obtain r st' where se: "?se = (r, st')" by (cases ?se)
  from assms have r: "r = None" by (cases r) (simp_all add: sendBlock_def se Let_def)
  from send_each_effect [of rt "map snd (sinks st)" "concat (map writeFloatBE block)" st]
  obtain msgs where
    m: "st' = st\<lparr>sent := sent st @ msgs\<rparr>"
       "list_all (\<lambda>d. is_frame (fst d) \<and> frame_sequence (fst d) = sequence st
                    \<and> frame_payload (fst d) = concat (map writeFloatBE block)) msgs"
       "length msgs = length (sinks st)"
    by (auto simp: se r)
  have "snd (sendBlock rt block st)
            = st\<lparr>sent := sent st @ msgs,
                 sequence := (if sequence st + 1 \<ge> 0x7FFFFFFF then 0 else sequence st + 1)\<rparr>"
    by (simp add: sendBlock_def se r m(1) Let_def)
  then show ?thesis using m(2,3) by (intro exI [of _ msgs]) simp
qed


lemma block_bytes_drop: "block_bytes n (drop n stream) j = block_bytes n stream (Suc j)"
  by (simp add: block_bytes_def add.commute)

lemma concat_replicate_Suc:
  "concat (map (\<lambda>j. replicate k (f j)) [0..<Suc m])
     = replicate k (f 0) @ concat (map (\<lambda>j. replicate k (f (Suc j))) [0..<m])"
proof -
  have "[0..<Suc m] = 0 # map Suc [0..<m]"
    by (simp add: upt_conv_Cons map_Suc_upt del: upt_Suc)
  then show ?thesis by (simp add: comp_def del: upt_Suc)
qed

lemma map_const_replicate: "\<forall>x \<in> set xs. f x = c \<Longrightarrow> map f xs = replicate (length xs) c"
  by (induction xs) simp_all

lemma send_blocks_effect:
  assumes "0 \<le> sequence st" "sequence st < 0x7FFFFFFF"
  shows "\<exists>m msgs. m \<le> n \<and> (fst (send_blocks rt n st) = None \<longrightarrow> m = n) \<and>
     snd (send_blocks rt n st)
       = st\<lparr>sampleBuffer := drop ((if fst (send_blocks rt n st) = None then n else Suc m)
                                     * nat (blockSize st * channels st)) (sampleBuffer st),
            sent := sent st @ msgs, sequence := seq_at (sequence st) m\<rparr> \<and>
     list_all (\<lambda>d. is_frame (fst d)) msgs \<and>
     map (\<lambda>d. frame_sequence (fst d)) msgs
       = concat (map (\<lambda>j. replicate (length (sinks st)) (seq_at (sequence st) j)) [0..<m]) \<and>
     map (\<lambda>d. frame_payload (fst d)) msgs
       = concat (map (\<lambda>j. replicate (length (sinks st))
                  (block_bytes (nat (blockSize st * channels st)) (sampleBuffer st) j)) [0..<m])"
  using assms
proof (induction n arbitrary: st)
  case 0
  show ?case
    by (intro exI [of _ 0] exI [of _ "[]"]) (simp add: seq_at_0 [OF "0.prems"])
next
  case (Suc n)
  let ?spb = "nat (blockSize st * channels st)"
  let ?block = "take ?spb (sampleBuffer st)"
  let ?st1 = "st\<lparr>sampleBuffer := drop ?spb (sampleBuffer st)\<rparr>"
  show ?case
  proof (cases "fst (sendBlock rt ?block ?st1)")
    case (Some e)
    from sendBlock_fail [OF Some] have s2: "sendBlock rt ?block ?st1 = (Some e, ?st1)"
      using Some by (cases "sendBlock rt ?block ?st1") simp
    have r: "send_blocks rt (Suc n) st = (Some e, ?st1)"
      by (simp add: s2 Let_def)
    show ?thesis
      by (intro exI [of _ 0] exI [of _ "[]"]) (simp add: r seq_at_0 [OF Suc.prems] del: send_blocks.simps)
  next
    case None
    from sendBlock_ok [OF None] obtain msgs0 where
      st2: "snd (sendBlock rt ?block ?st1)
            = ?st1\<lparr>sent := sent ?st1 @ msgs0,
                 sequence := (if sequence ?st1 + 1 \<ge> 0x7FFFFFFF then 0 else sequence ?st1 + 1)\<rparr>"
      and fr0: "list_all (\<lambda>d. is_frame (fst d) \<and> frame_sequence (fst d) = sequence ?st1
                    \<and> frame_payload (fst d) = concat (map writeFloatBE ?block)) msgs0"
      and len0: "length msgs0 = length (sinks ?st1)"
      by blast
    define st2 where "st2 = snd (sendBlock rt ?block ?st1)"
    have sb: "sendBlock rt ?block ?st1 = (None, st2)"
      using None by (cases "sendBlock rt ?block ?st1") (simp add: st2_def)
    have r: "send_blocks rt (Suc n) st = send_blocks rt n st2"
      by (simp add: sb Let_def)
    define nxt where "nxt = (if sequence st + 1 \<ge> 0x7FFFFFFF then 0 else sequence st + 1)"
    have st2_eq: "st2 = st\<lparr>sampleBuffer := drop ?spb (sampleBuffer st), sent := sent st @ msgs0,
                 sequence := nxt\<rparr>"
      using st2 by (simp add: st2_def nxt_def)
    have rng: "0 \<le> sequence st2" "sequence st2 < 0x7FFFFFFF"
      using Suc.prems by (simp_all add: st2_eq nxt_def)
    from Suc.IH [OF rng] obtain m msgs where
      ih: "m \<le> n" "fst (send_blocks rt n st2) = None \<longrightarrow> m = n"
        "snd (send_blocks rt n st2)
           = st2\<lparr>sampleBuffer := drop ((if fst (send_blocks rt n st2) = None then n else Suc m)
                                     * nat (blockSize st2 * channels st2)) (sampleBuffer st2),
            sent := sent st2 @ msgs, sequence := seq_at (sequence st2) m\<rparr>"
        "list_all (\<lambda>d. is_frame (fst d)) msgs"
        "map (\<lambda>d. frame_sequence (fst d)) msgs
           = concat (map (\<lambda>j. replicate (length (sinks st2)) (seq_at (sequence st2) j)) [0..<m])"
        "map (\<lambda>d. frame_payload (fst d)) msgs
           = concat (map (\<lambda>j. replicate (length (sinks st2))
                  (block_bytes (nat (blockSize st2 * channels st2)) (sampleBuffer st2) j)) [0..<m])"
      by (elim exE conjE) (rule that)
    have sq: "seq_at nxt j = seq_at (sequence st) (Suc j)" for j
      unfolding nxt_def by (rule seq_at_next [OF Suc.prems])
    have fs0: "map (\<lambda>d. frame_sequence (fst d)) msgs0
                 = replicate (length (sinks st)) (seq_at (sequence st) 0)"
      using map_const_replicate [of msgs0 "\<lambda>d. frame_sequence (fst d)" "sequence st"] fr0 len0
      by (simp add: list_all_iff seq_at_0 [OF Suc.prems])
    have fp0: "map (\<lambda>d. frame_payload (fst d)) msgs0
                 = replicate (length (sinks st)) (block_bytes ?spb (sampleBuffer st) 0)"
      using map_const_replicate [of msgs0 "\<lambda>d. frame_payload (fst d)"
               "concat (map writeFloatBE ?block)"] fr0 len0
      by (simp add: list_all_iff block_bytes_def)
    have fi0: "list_all (\<lambda>d. is_frame (fst d)) msgs0"
      using fr0 by (simp add: list_all_iff)
    have k: "drop ((if fst (send_blocks rt n st2) = None then n else Suc m) * ?spb)
                  (drop ?spb (sampleBuffer st))
           = drop ((if fst (send_blocks rt n st2) = None then Suc n else Suc (Suc m)) * ?spb)
                  (sampleBuffer st)"
      by (simp add: add.commute)
    show ?thesis
    proof (intro exI [of _ "Suc m"] exI [of _ "msgs0 @ msgs"] conjI)
      show "Suc m \<le> Suc n" using ih(1) by simp
      show "fst (send_blocks rt (Suc n) st) = None \<longrightarrow> Suc m = Suc n"
        using ih(2) by (simp add: r del: send_blocks.simps)
      show "snd (send_blocks rt (Suc n) st)
       = st\<lparr>sampleBuffer := drop ((if fst (send_blocks rt (Suc n) st) = None then Suc n else Suc (Suc m))
                                     * nat (blockSize st * channels st)) (sampleBuffer st),
            sent := sent st @ msgs0 @ msgs, sequence := seq_at (sequence st) (Suc m)\<rparr>"
        unfolding r ih(3) using k by (simp add: st2_eq sq)
      show "list_all (\<lambda>d. is_frame (fst d)) (msgs0 @ msgs)" using fi0 ih(4) by simp
      show "map (\<lambda>d. frame_sequence (fst d)) (msgs0 @ msgs)
       = concat (map (\<lambda>j. replicate (length (sinks st)) (seq_at (sequence st) j)) [0..<Suc m])"
        unfolding concat_replicate_Suc using fs0 ih(5) by (simp add: st2_eq sq)
      show "map (\<lambda>d. frame_payload (fst d)) (msgs0 @ msgs)
       = concat (map (\<lambda>j. replicate (length (sinks st))
                  (block_bytes (nat (blockSize st * channels st)) (sampleBuffer st) j)) [0..<Suc m])"
        unfolding concat_replicate_Suc using fp0 ih(6) by (simp add: st2_eq block_bytes_drop)
    qed
  qed
qed


lemma sendBlock_config:
  "blockSize (snd (sendBlock rt block st)) = blockSize st"
  "channels (snd (sendBlock rt block st)) = channels st"
  "sampleBuffer (snd (sendBlock rt block st)) = sampleBuffer st"
proof -
  show "blockSize (snd (sendBlock rt block st)) = blockSize st"
    using sendBlock_fail [of rt block st] sendBlock_ok [of rt block st]
    by (cases "fst (sendBlock rt block st)") auto
  show "channels (snd (sendBlock rt block st)) = channels st"
    using sendBlock_fail [of rt block st] sendBlock_ok [of rt block st]
    by (cases "fst (sendBlock rt block st)") auto
  show "sampleBuffer (snd (sendBlock rt block st)) = sampleBuffer st"
    using sendBlock_fail [of rt block st] sendBlock_ok [of rt block st]
    by (cases "fst (sendBlock rt block st)") auto
qed

text \<open>With a positive block length the draining loop ends, after one pass per full block.\<close>

lemma drain_send_blocks:
  assumes "0 < blockSize st * channels st"
  shows "drain rt st
           = Some (send_blocks rt (length (sampleBuffer st) div nat (blockSize st * channels st)) st)"
proof -
  have "n = length (sampleBuffer st) div nat (blockSize st * channels st) \<Longrightarrow>
        0 < blockSize st * channels st \<Longrightarrow> drain rt st = Some (send_blocks rt n st)" for n
  proof (induction n arbitrary: st)
    case 0
    then have "length (sampleBuffer st) < nat (blockSize st * channels st)"
      by (simp add: div_eq_0_iff)
    then have "\<not> int (length (sampleBuffer st)) \<ge> blockSize st * channels st" by linarith
    then show ?case by (subst drain.simps) (simp add: Let_def)
  next
    case (Suc n)
    let ?spb = "nat (blockSize st * channels st)"
    let ?block = "take ?spb (sampleBuffer st)"
    let ?st1 = "st\<lparr>sampleBuffer := drop ?spb (sampleBuffer st)\<rparr>"
    have pos: "0 < ?spb" using Suc.prems(2) by simp
    have ge: "?spb \<le> length (sampleBuffer st)"
      using Suc.prems(1) pos by (metis div_less not_less Zero_not_Suc)
    have n: "n = (length (sampleBuffer st) - ?spb) div ?spb"
      using Suc.prems(1) ge pos by (simp add: le_div_geq)
    have c: "int (length (sampleBuffer st)) \<ge> blockSize st * channels st"
      using ge by linarith
    obtain r st2 where sb: "sendBlock rt ?block ?st1 = (r, st2)"
      by (cases "sendBlock rt ?block ?st1")
    show ?case
    proof (cases r)
      case (Some e)
      show ?thesis
        using c by (subst drain.simps) (simp add: Let_def sb Some)
    next
      case None
      have cfg: "blockSize st2 = blockSize st" "channels st2 = channels st"
        "sampleBuffer st2 = drop ?spb (sampleBuffer st)"
        using sendBlock_config [of rt ?block ?st1] by (simp_all add: sb)
      have "drain rt st2 = Some (send_blocks rt n st2)"
        by (rule Suc.IH) (simp_all add: cfg n Suc.prems(2))
      then show ?thesis
        using c by (subst drain.simps) (simp add: Let_def sb None)
    qed
  qed
  from this [OF refl assms] show ?thesis .
qed


section \<open>The \<open>/start\<close> broadcast and \<open>updateSampleRate\<close>\<close>

lemma encode_arg_s: "encode_arg rt (CHR ''s'', JStr s) = Inr (padded s)"
  by (simp add: encode_arg_def)

lemma encode_arg_N: "encode_arg rt (CHR ''N'', v) = Inr []"
  by (simp add: encode_arg_def)

lemma encode_arg_t0: "encode_arg rt (CHR ''t'', JBig 0) = Inr (be64 0)"
  by (simp add: encode_arg_def writeBigUInt64BE_def)

lemma encode_arg_ext:
  "encode_arg rt (CHR ''b'', JBuf makePcmExtension) = Inr [0, 0, 0, 4, 0, 0, 0, 3]"
  by (simp add: encode_arg_def makePcmExtension_def writeInt32BE_def trunc_def be32_def ceil4_def)

lemma encode_arg_tenth:
  assumes "in_int32 n"
  shows "\<exists>b. encode_arg rt (CHR ''i'', JNum (Num (of_int n / 10))) = Inr b"
proof -
  have "(of_int n :: rat) \<le> 2147483647" "- 2147483648 \<le> (of_int n :: rat)"
    using assms unfolding in_int32_def
    by (metis of_int_le_iff of_int_numeral, metis of_int_le_iff of_int_numeral of_int_minus)
  then have "\<not> (of_int n :: rat) / 10 > 2147483647" "\<not> (of_int n :: rat) / 10 < - 2147483648"
    by simp_all
  then show ?thesis
    by (simp add: encode_arg_def to_number_def writeInt32BE_def)
qed

lemma encode_arg_version:
  assumes "case v of JStr s \<Rightarrow> True | v \<Rightarrow> \<not> truthy v"
  shows "\<exists>b. encode_arg rt (CHR ''s'', if truthy v then v else JStr ''2.0'') = Inr b"
  using assms by (cases v) (auto simp: encode_arg_def)

lemma encode_arg_streamId:
  assumes "case to_number rt v of Inl e \<Rightarrow> False
           | Inr n \<Rightarrow> (case writeInt32BE n of Inl e \<Rightarrow> False | Inr b \<Rightarrow> True)"
  shows "\<exists>b. encode_arg rt (CHR ''i'', v) = Inr b"
  using assms by (auto simp: encode_arg_def split: sum.splits)

lemma encode_arg_in_int32:
  "in_int32 n \<Longrightarrow> encode_arg rt (CHR ''i'', int_val n) = Inr (be32 (word_of_int n))"
  by (simp add: in_int32_def encode_arg_int)

lemma start_message_ok:
  assumes "start_encodable rt st"
  shows "\<exists>m. start_message rt st sid = Inr m"
proof -
  from assms have r: "in_int32 (sourceId st)" "in_int32 (sequence st)" "in_int32 (formatId st)"
      "in_int32 (channels st)" "in_int32 (sampleRate st)" "in_int32 (blockSize st)"
    and s: "case to_number rt (streamId st) of Inl e \<Rightarrow> False
           | Inr n \<Rightarrow> (case writeInt32BE n of Inl e \<Rightarrow> False | Inr b \<Rightarrow> True)"
    and v: "case sinkVersion st of JStr s \<Rightarrow> True | v \<Rightarrow> \<not> truthy v"
    by (simp_all add: start_encodable_def)
  from encode_arg_version [OF v, of rt] obtain bv where
    bv: "encode_arg rt (CHR ''s'', if truthy (sinkVersion st) then sinkVersion st else JStr ''2.0'') = Inr bv" ..
  from encode_arg_streamId [OF s] obtain bs where
    bs: "encode_arg rt (CHR ''i'', streamId st) = Inr bs" ..
  from encode_arg_tenth [OF r(5), of rt] obtain bt where
    bt: "encode_arg rt (CHR ''i'', JNum (Num (of_int (sampleRate st) / 10))) = Inr bt" ..
  have z: "in_int32 0" by (simp add: in_int32_def)
  have "\<exists>b. encode_args rt (start_args st) = Inr b"
    by (simp add: start_args_def encode_arg_in_int32 r z bv bs bt encode_arg_s encode_arg_N
          encode_arg_t0 encode_arg_ext)
  then show ?thesis
    by (auto simp: start_message_def buildOSCMessage_def Let_def)
qed

lemma padded_Cons: "\<exists>z. padded (c # s) = byte_of_char c # z"
  using padded_split [of "c # s"] by auto

lemma buildOSCMessage_first:
  assumes "buildOSCMessage rt (c # s) args = Inr m"
  shows "\<exists>z. m = byte_of_char c # z"
proof -
  obtain z where z: "padded (c # s) = byte_of_char c # z"
    using padded_Cons by blast
  from assms show ?thesis
    by (auto simp: buildOSCMessage_def z Let_def split: sum.splits)
qed

lemma start_message_not_frame:
  assumes "start_message rt st sid = Inr m"
  shows "\<not> is_frame m"
proof -
  have "buildOSCMessage rt (CHR ''/'' # (''aoo/sink/'' @ to_string rt (int_val sid) @ ''/start''))
          (start_args st) = Inr m"
    using assms by (simp add: start_message_def)
  from buildOSCMessage_first [OF this] obtain z where "m = byte_of_char CHR ''/'' # z" by blast
  then show ?thesis
    by (simp add: is_frame_def byte_of_char_def kAooBinMsgDomainBit_def)
qed

lemma start_message_sent:
  "start_message rt (st\<lparr>sent := x\<rparr>) sid = start_message rt st sid"
  by (simp add: start_message_def start_args_def)

text \<open>
  The loop over the active sinks appends one \<open>/start\<close> message per active sink, in the
  order of the registry, up to the first that cannot be encoded.
\<close>

lemma start_each_effect:
  "\<exists>msgs. snd (start_each rt ss st) = st\<lparr>sent := sent st @ msgs\<rparr> \<and>
     list_all2 (\<lambda>s d. start_message rt st (sinkId s) = Inr (fst d) \<and> snd d = (port s, host s))
        (take (length msgs) (filter active ss)) msgs \<and>
     length msgs \<le> length (filter active ss) \<and>
     (fst (start_each rt ss st) = None \<longrightarrow> length msgs = length (filter active ss))"
proof -
  have gen: "\<exists>msgs. snd (start_each rt ss (st\<lparr>sent := sent st @ pre\<rparr>))
                      = st\<lparr>sent := sent st @ pre @ msgs\<rparr> \<and>
     list_all2 (\<lambda>s d. start_message rt st (sinkId s) = Inr (fst d) \<and> snd d = (port s, host s))
        (take (length msgs) (filter active ss)) msgs \<and>
     length msgs \<le> length (filter active ss) \<and>
     (fst (start_each rt ss (st\<lparr>sent := sent st @ pre\<rparr>)) = None
        \<longrightarrow> length msgs = length (filter active ss))" for pre
  proof (induction ss arbitrary: pre)
    case Nil
    show ?case by (intro exI [of _ "[]"]) simp
  next
    case (Cons s ss)
    show ?case
    proof (cases "active s")
      case False
      with Cons.IH [of pre] show ?thesis by simp
    next
      case True
      show ?thesis
      proof (cases "start_message rt st (sinkId s)")
        case (Inl e)
        then show ?thesis
          by (intro exI [of _ "[]"]) (simp add: True sendStartOSC_def start_message_sent)
      next
        case (Inr m)
        from Cons.IH [of "pre @ [(m, port s, host s)]"] obtain msgs where
          ih: "snd (start_each rt ss (st\<lparr>sent := sent st @ pre @ [(m, port s, host s)]\<rparr>))
                      = st\<lparr>sent := sent st @ (pre @ [(m, port s, host s)]) @ msgs\<rparr>"
            "list_all2 (\<lambda>s d. start_message rt st (sinkId s) = Inr (fst d) \<and> snd d = (port s, host s))
               (take (length msgs) (filter active ss)) msgs"
            "length msgs \<le> length (filter active ss)"
            "fst (start_each rt ss (st\<lparr>sent := sent st @ pre @ [(m, port s, host s)]\<rparr>)) = None
               \<longrightarrow> length msgs = length (filter active ss)"
          by (elim exE conjE) (rule that, simp_all)
        show ?thesis
          using ih
          by (intro exI [of _ "(m, port s, host s) # msgs"])
             (simp add: True sendStartOSC_def start_message_sent Inr)
      qed
    qed
  qed
  from gen [of "[]"] show ?thesis by simp
qed


lemma start_each_ok:
  assumes "\<And>sid. \<exists>m. start_message rt st sid = Inr m"
  shows "fst (start_each rt ss st) = None"
proof -
  have "fst (start_each rt ss (st\<lparr>sent := x\<rparr>)) = None" for x
  proof (induction ss arbitrary: x)
    case Nil
    show ?case by simp
  next
    case (Cons s ss)
    from assms obtain m where m: "start_message rt st (sinkId s) = Inr m" by blast
    show ?case
      using Cons.IH by (simp add: sendStartOSC_def start_message_sent m)
  qed
  from this [of "sent st"] show ?thesis by simp
qed

lemma updateSampleRate_cases:
  "(newRate = sampleRate st \<longrightarrow> updateSampleRate rt newRate st = (None, st)) \<and>
   (newRate \<noteq> sampleRate st \<and> \<not> startSent st \<longrightarrow>
      updateSampleRate rt newRate st
        = (None, st\<lparr>sampleRate := newRate, formatId := formatId st + 1\<rparr>)) \<and>
   (newRate \<noteq> sampleRate st \<and> startSent st \<and>
      start_encodable rt (st\<lparr>sampleRate := newRate, formatId := formatId st + 1\<rparr>) \<longrightarrow>
      (\<exists>msgs. updateSampleRate rt newRate st
                 = (None, st\<lparr>sampleRate := newRate, formatId := formatId st + 1,
                              sent := sent st @ msgs\<rparr>) \<and>
         list_all2 (\<lambda>s d. start_message rt (st\<lparr>sampleRate := newRate, formatId := formatId st + 1\<rparr>)
                              (sinkId s) = Inr (fst d) \<and> snd d = (port s, host s))
           (filter active (map snd (sinks st))) msgs))"
proof (intro conjI impI)
  assume "newRate = sampleRate st"
  then show "updateSampleRate rt newRate st = (None, st)"
    by (simp add: updateSampleRate_def setSampleRate_def)
next
  assume "newRate \<noteq> sampleRate st \<and> \<not> startSent st"
  then show "updateSampleRate rt newRate st
        = (None, st\<lparr>sampleRate := newRate, formatId := formatId st + 1\<rparr>)"
    by (auto simp: updateSampleRate_def setSampleRate_def)
next
  let ?st = "st\<lparr>sampleRate := newRate, formatId := formatId st + 1\<rparr>"
  let ?ss = "map snd (sinks st)"
  assume a: "newRate \<noteq> sampleRate st \<and> startSent st \<and> start_encodable rt ?st"
  then have ok: "\<exists>m. start_message rt ?st sid = Inr m" for sid
    using start_message_ok by blast
  have f: "fst (start_each rt ?ss ?st) = None"
    by (rule start_each_ok [OF ok])
  from start_each_effect [of rt ?ss ?st] obtain msgs where
    m: "snd (start_each rt ?ss ?st) = ?st\<lparr>sent := sent ?st @ msgs\<rparr>"
       "list_all2 (\<lambda>s d. start_message rt ?st (sinkId s) = Inr (fst d) \<and> snd d = (port s, host s))
          (take (length msgs) (filter active ?ss)) msgs"
       "fst (start_each rt ?ss ?st) = None \<longrightarrow> length msgs = length (filter active ?ss)"
    by (elim exE conjE) (rule that)
  have l: "length msgs = length (filter active ?ss)" using m(3) f by simp
  have u: "updateSampleRate rt newRate st = start_each rt ?ss ?st"
    using a by (simp add: updateSampleRate_def)
  have "updateSampleRate rt newRate st = (None, ?st\<lparr>sent := sent ?st @ msgs\<rparr>)"
    unfolding u using f m(1) by (cases "start_each rt ?ss ?st") simp
  then show "\<exists>msgs. updateSampleRate rt newRate st
                 = (None, st\<lparr>sampleRate := newRate, formatId := formatId st + 1,
                              sent := sent st @ msgs\<rparr>) \<and>
         list_all2 (\<lambda>s d. start_message rt ?st (sinkId s) = Inr (fst d) \<and> snd d = (port s, host s))
           (filter active (map snd (sinks st))) msgs"
    using m(2) l by (intro exI [of _ msgs]) simp
qed


lemma example_announced_encodable:
  "start_encodable example_runtime
     (example_announced\<lparr>sampleRate := 44100, formatId := formatId example_announced + 1\<rparr>)"
  by (simp add: start_encodable_def example_announced_def example_session_eq in_int32_def
        to_number_def int_val_def writeInt32BE_def)


section \<open>Runs of \<open>sendAudio\<close>\<close>

lemma frames_since_append:
  assumes "sent st' = sent st @ msgs"
  shows "frames_since (length (sent st)) st' = filter is_frame (map fst msgs)"
  by (simp add: frames_since_def assms)

lemma concat_upt_add:
  "concat (map f [0..<m + k]) = concat (map f [0..<m]) @ concat (map (\<lambda>j. f (m + j)) [0..<k])"
  by (induction k) simp_all

lemma seq_at_add: "seq_at (seq_at s m) j = seq_at s (m + j)"
  by (simp add: seq_at_def mod_add_left_eq add.assoc)


lemma advanced_trans:
  assumes "advanced st st1 m1" "advanced st1 st2 m2"
  shows "advanced st st2 (m1 + m2)"
proof -
  from assms(1) have p1: "take (length (sent st)) (sent st1) = sent st"
    and f1: "map frame_sequence (frames_since (length (sent st)) st1)
        = concat (map (\<lambda>j. replicate (length (sinks st)) (seq_at (sequence st) j)) [0..<m1])"
    and c1: "sequence st1 = seq_at (sequence st) m1" "sinks st1 = sinks st"
      "blockSize st1 = blockSize st" "channels st1 = channels st" "isStreaming st1 = isStreaming st"
    by (simp_all add: advanced_def)
  from assms(2) have p2: "take (length (sent st1)) (sent st2) = sent st1"
    and f2: "map frame_sequence (frames_since (length (sent st1)) st2)
        = concat (map (\<lambda>j. replicate (length (sinks st1)) (seq_at (sequence st1) j)) [0..<m2])"
    and c2: "sequence st2 = seq_at (sequence st1) m2" "sinks st2 = sinks st1"
      "blockSize st2 = blockSize st1" "channels st2 = channels st1" "isStreaming st2 = isStreaming st1"
    by (simp_all add: advanced_def)
  obtain a where a: "sent st1 = sent st @ a"
    using p1 by (metis append_take_drop_id)
  obtain b where b: "sent st2 = sent st1 @ b"
    using p2 by (metis append_take_drop_id)
  have fs: "frames_since (length (sent st)) st2
          = frames_since (length (sent st)) st1 @ frames_since (length (sent st1)) st2"
    by (simp add: frames_since_def a b)
  have "map frame_sequence (frames_since (length (sent st)) st2)
        = concat (map (\<lambda>j. replicate (length (sinks st)) (seq_at (sequence st) j)) [0..<m1 + m2])"
    unfolding fs concat_upt_add using f1 f2 by (simp add: c1 seq_at_add)
  moreover have "take (length (sent st)) (sent st2) = sent st" by (simp add: a b)
  ultimately show ?thesis
    using c1 c2 by (simp add: advanced_def seq_at_add)
qed


lemma send_blocks_advanced:
  assumes "0 \<le> sequence st" "sequence st < 0x7FFFFFFF"
  shows "\<exists>m. advanced st (snd (send_blocks rt n st)) m \<and>
           (fst (send_blocks rt n st) = None \<longrightarrow>
              m = n \<and> drained st (snd (send_blocks rt n st)) (sampleBuffer st) n)"
proof -
  let ?out = "send_blocks rt n st"
  from send_blocks_effect [OF assms, of n rt] obtain m msgs where
    e: "m \<le> n" "fst ?out = None \<longrightarrow> m = n"
     "snd ?out = st\<lparr>sampleBuffer := drop ((if fst ?out = None then n else Suc m)
                                     * nat (blockSize st * channels st)) (sampleBuffer st),
            sent := sent st @ msgs, sequence := seq_at (sequence st) m\<rparr>"
     "list_all (\<lambda>d. is_frame (fst d)) msgs"
     "map (\<lambda>d. frame_sequence (fst d)) msgs
       = concat (map (\<lambda>j. replicate (length (sinks st)) (seq_at (sequence st) j)) [0..<m])"
     "map (\<lambda>d. frame_payload (fst d)) msgs
       = concat (map (\<lambda>j. replicate (length (sinks st))
                  (block_bytes (nat (blockSize st * channels st)) (sampleBuffer st) j)) [0..<m])"
    by (elim exE conjE) (rule that)
  have fl: "filter is_frame (map fst msgs) = map fst msgs"
    using e(4) by (simp add: list_all_iff)
  have fs: "frames_since (length (sent st)) (snd ?out) = map fst msgs"
    using fl by (simp add: frames_since_def e(3))
  have a: "advanced st (snd ?out) m"
    unfolding advanced_def fs using e(5) by (simp add: e(3) comp_def)
  have d: "drained st (snd ?out) (sampleBuffer st) n" if "fst ?out = None"
    unfolding drained_def fs Let_def using e(2,6) that by (simp add: e(3) comp_def)
  show ?thesis
  proof (intro exI [of _ m] conjI impI)
    show "advanced st (snd ?out) m" by (rule a)
    show "m = n" if "fst ?out = None" using that e(2) by (rule rev_mp)
    show "drained st (snd ?out) (sampleBuffer st) n" if "fst ?out = None" using that by (rule d)
  qed
qed

lemma list_all2_right:
  assumes "list_all2 P xs ys" "\<And>x y. P x y \<Longrightarrow> Q y"
  shows "list_all Q ys"
  using assms by (induction rule: list_all2_induct) simp_all

lemma announce_effect:
  "\<exists>msgs. sent (snd (announce rt rate st)) = sent st @ msgs \<and>
     list_all (\<lambda>d. \<not> is_frame (fst d)) msgs \<and>
     sampleBuffer (snd (announce rt rate st)) = sampleBuffer st \<and>
     sequence (snd (announce rt rate st)) = sequence st \<and>
     sinks (snd (announce rt rate st)) = sinks st \<and>
     blockSize (snd (announce rt rate st)) = blockSize st \<and>
     channels (snd (announce rt rate st)) = channels st \<and>
     isStreaming (snd (announce rt rate st)) = isStreaming st"
proof (cases "startSent st")
  case True
  then show ?thesis by (intro exI [of _ "[]"]) (simp add: announce_def)
next
  case False
  define st0 where "st0 = (case rate of None \<Rightarrow> st
           | Some r \<Rightarrow> if r \<noteq> 0 \<and> r \<noteq> sampleRate st then setSampleRate r st else st)"
  have c0: "sent st0 = sent st" "sampleBuffer st0 = sampleBuffer st" "sequence st0 = sequence st"
    "sinks st0 = sinks st" "blockSize st0 = blockSize st" "channels st0 = channels st"
    "isStreaming st0 = isStreaming st"
    by (simp_all add: st0_def setSampleRate_def split: option.splits)
  from start_each_effect [of rt "map snd (sinks st0)" st0] obtain msgs where
    m: "snd (start_each rt (map snd (sinks st0)) st0) = st0\<lparr>sent := sent st0 @ msgs\<rparr>"
       "list_all2 (\<lambda>s d. start_message rt st0 (sinkId s) = Inr (fst d) \<and> snd d = (port s, host s))
          (take (length msgs) (filter active (map snd (sinks st0)))) msgs"
    by (elim exE conjE) (rule that)
  have nf: "list_all (\<lambda>d. \<not> is_frame (fst d)) msgs"
    by (rule list_all2_right [OF m(2)]) (auto dest: start_message_not_frame)
  obtain r st1 where se: "start_each rt (map snd (sinks st0)) st0 = (r, st1)"
    by (cases "start_each rt (map snd (sinks st0)) st0")
  have st1: "st1 = st0\<lparr>sent := sent st0 @ msgs\<rparr>" using m(1) by (simp add: se)
  have an: "announce rt rate st = (case r of Some e \<Rightarrow> (Some e, st1)
                                  | None \<Rightarrow> (None, st1\<lparr>startSent := True\<rparr>))"
    using False by (simp add: announce_def sendStartToAllSinks_def st0_def [symmetric] se)
  show ?thesis
    using nf by (intro exI [of _ msgs]) (cases r; simp add: an st1 c0)
qed


lemma frames_since_skip:
  assumes "sent st1 = sent st @ msgs" "list_all (\<lambda>d. \<not> is_frame (fst d)) msgs"
    "take (length (sent st1)) (sent st2) = sent st1"
  shows "frames_since (length (sent st)) st2 = frames_since (length (sent st1)) st2"
proof -
  obtain b where b: "sent st2 = sent st1 @ b"
    using assms(3) by (metis append_take_drop_id)
  have "filter is_frame (map fst msgs) = []"
    using assms(2) by (simp add: list_all_iff filter_empty_conv)
  then show ?thesis by (simp add: frames_since_def b assms(1))
qed

lemma sendAudio_effect:
  assumes "isStreaming st" "0 < blockSize st * channels st"
    "0 \<le> sequence st" "sequence st < 0x7FFFFFFF"
  shows "\<exists>out m. sendAudio rt l r rate st = Some out \<and> advanced st (snd out) m \<and>
           (fst out = None \<longrightarrow>
              m = length (sampleBuffer st @ interleaved l r) div nat (blockSize st * channels st) \<and>
              drained st (snd out) (sampleBuffer st @ interleaved l r) m)"
proof -
  obtain ra st1 where an: "announce rt rate st = (ra, st1)" by (cases "announce rt rate st")
  from announce_effect [of rt rate st] obtain msgs where
    a: "sent st1 = sent st @ msgs" "list_all (\<lambda>d. \<not> is_frame (fst d)) msgs"
       "sampleBuffer st1 = sampleBuffer st" "sequence st1 = sequence st" "sinks st1 = sinks st"
       "blockSize st1 = blockSize st" "channels st1 = channels st" "isStreaming st1 = isStreaming st"
    unfolding an snd_conv by (elim exE conjE) (rule that)
  have nofr: "filter is_frame (map fst msgs) = []"
    using a(2) by (simp add: list_all_iff filter_empty_conv)
  show ?thesis
  proof (cases ra)
    case (Some e)
    have r: "sendAudio rt l r rate st = Some (Some e, st1)"
      using assms(1) by (simp add: sendAudio_def an Some)
    have "advanced st st1 0"
      using a nofr by (simp add: advanced_def frames_since_def seq_at_0 [OF assms(3,4)])
    then show ?thesis
      by (intro exI [of _ "(Some e, st1)"] exI [of _ 0]) (simp add: r)
  next
    case None
    let ?T = "sampleBuffer st @ interleaved l r"
    let ?n = "nat (blockSize st * channels st)"
    define st2 where "st2 = st1\<lparr>sampleBuffer := ?T\<rparr>"
    have c2: "sent st2 = sent st @ msgs" "sampleBuffer st2 = ?T" "sequence st2 = sequence st"
       "sinks st2 = sinks st" "blockSize st2 = blockSize st" "channels st2 = channels st"
       "isStreaming st2 = isStreaming st"
      by (simp_all add: st2_def a)
    define out where "out = send_blocks rt (length ?T div ?n) st2"
    have r: "sendAudio rt l r rate st = Some out"
      using assms(1,2) drain_send_blocks [of st2 rt]
      by (simp add: sendAudio_def an None push_samples_eq a(3) st2_def [symmetric] c2 out_def)
    have rng2: "0 \<le> sequence st2" "sequence st2 < 0x7FFFFFFF" using assms(3,4) by (simp_all add: c2)
    have "\<exists>m. advanced st2 (snd out) m \<and>
           (fst out = None \<longrightarrow>
              m = length ?T div ?n \<and> drained st2 (snd out) (sampleBuffer st2) (length ?T div ?n))"
      unfolding out_def by (rule send_blocks_advanced [OF rng2])
    then obtain m where
      m: "advanced st2 (snd out) m"
         "fst out = None \<longrightarrow> m = length ?T div ?n \<and> drained st2 (snd out) (sampleBuffer st2) (length ?T div ?n)"
      by (elim exE conjE) (rule that)
    have a02: "advanced st st2 0"
      using c2 nofr by (simp add: advanced_def frames_since_def seq_at_0 [OF assms(3,4)])
    have adv: "advanced st (snd out) m"
      using advanced_trans [OF a02 m(1)] by simp
    have pre: "take (length (sent st2)) (sent (snd out)) = sent st2"
      using m(1) by (simp add: advanced_def)
    have fs: "frames_since (length (sent st)) (snd out) = frames_since (length (sent st2)) (snd out)"
      by (rule frames_since_skip [OF c2(1) a(2) pre])
    have dr: "drained st (snd out) ?T m" if "fst out = None"
      using m(2) that by (simp add: drained_def fs c2)
    show ?thesis
    proof (intro exI [of _ out] exI [of _ m] conjI impI)
      show "sendAudio rt l r rate st = Some out" by (rule r)
      show "advanced st (snd out) m" by (rule adv)
      show "m = length ?T div ?n" if "fst out = None" using m(2) that by simp
      show "drained st (snd out) ?T m" if "fst out = None" using that by (rule dr)
    qed
  qed
qed











section \<open>Runs that do not raise\<close>

lemma buildDataMessage_ok:
  assumes "frame_encodable rt st" "length audio \<le> 65535"
  shows "\<exists>m. buildDataMessage rt st snk audio = Inr m"
proof -
  from assms(1) have "in_int32 (sequence st)" by (simp add: frame_encodable_def in_int32_def)
  then have w: "writeInt32BE (Num (of_int (sequence st))) = Inr (be32 (word_of_int (sequence st)))"
    by (simp add: in_int32_def writeInt32BE_of_int)
  from assms(1) obtain n b where "to_number rt (streamId st) = Inr n" "writeInt32BE n = Inr b"
    by (auto simp: frame_encodable_def split: sum.splits)
  then show ?thesis
    using assms(2) by (simp add: buildDataMessage_def w writeUInt16BE_def)
qed

lemma send_each_ok:
  assumes "\<And>snk. \<exists>m. buildDataMessage rt st snk audio = Inr m"
  shows "fst (send_each rt ss audio st) = None"
proof -
  have "fst (send_each rt ss audio (st\<lparr>sent := x\<rparr>)) = None" for x
  proof (induction ss arbitrary: x)
    case Nil
    show ?case by simp
  next
    case (Cons s ss)
    from assms obtain m where m: "buildDataMessage rt st s audio = Inr m" by blast
    show ?case using Cons.IH by (simp add: buildDataMessage_sent m)
  qed
  from this [of "sent st"] show ?thesis by simp
qed

lemma length_block_bytes: "length (concat (map writeFloatBE block)) = 4 * length block"
  by (induction block) (simp_all add: writeFloatBE_def length_be32 split: option.splits)

lemma sendBlock_no_raise:
  assumes "frame_encodable rt st" "4 * length block \<le> 65535"
  shows "fst (sendBlock rt block st) = None"
proof -
  let ?a = "concat (map writeFloatBE block)"
  have "length ?a \<le> 65535" using assms(2) by (simp only: length_block_bytes)
  then have "fst (send_each rt (map snd (sinks st)) ?a st) = None"
    using buildDataMessage_ok [OF assms(1)] by (intro send_each_ok) blast
  then show ?thesis
    by (cases "send_each rt (map snd (sinks st)) ?a st") (simp add: sendBlock_def Let_def)
qed

lemma send_blocks_no_raise:
  assumes "frame_encodable rt st" "4 * nat (blockSize st * channels st) \<le> 65535"
  shows "fst (send_blocks rt n st) = None"
  using assms
proof (induction n arbitrary: st)
  case 0
  show ?case by simp
next
  case (Suc n)
  let ?spb = "nat (blockSize st * channels st)"
  let ?block = "take ?spb (sampleBuffer st)"
  let ?st1 = "st\<lparr>sampleBuffer := drop ?spb (sampleBuffer st)\<rparr>"
  have fe1: "frame_encodable rt ?st1" using Suc.prems(1) by (simp add: frame_encodable_def)
  have "4 * length ?block \<le> 65535" using Suc.prems(2) by simp
  from sendBlock_no_raise [OF fe1 this] have f: "fst (sendBlock rt ?block ?st1) = None" .
  define st2 where "st2 = snd (sendBlock rt ?block ?st1)"
  have sb: "sendBlock rt ?block ?st1 = (None, st2)"
    using f by (cases "sendBlock rt ?block ?st1") (simp add: st2_def)
  from sendBlock_ok [OF f] obtain msgs where
    "st2 = ?st1\<lparr>sent := sent ?st1 @ msgs,
                 sequence := (if sequence ?st1 + 1 \<ge> 0x7FFFFFFF then 0 else sequence ?st1 + 1)\<rparr>"
    unfolding st2_def by blast
  then have c: "streamId st2 = streamId st" "blockSize st2 = blockSize st" "channels st2 = channels st"
    "0 \<le> sequence st2" "sequence st2 < 0x7FFFFFFF"
    using Suc.prems(1) by (simp_all add: frame_encodable_def)
  have fe2: "frame_encodable rt st2"
    using Suc.prems(1) c by (simp add: frame_encodable_def)
  have "fst (send_blocks rt n st2) = None"
    by (rule Suc.IH [OF fe2]) (simp add: c Suc.prems(2))
  then show ?case by (simp add: sb Let_def)
qed



lemma sendAudio_no_raise:
  assumes "isStreaming st" "0 < blockSize st * channels st"
    "4 * nat (blockSize st * channels st) \<le> 65535" "frame_encodable rt st"
    "startSent st \<or> start_encodable rt st"
  shows "\<exists>st'. sendAudio rt l r None st = Some (None, st') \<and> startSent st' \<and>
           frame_encodable rt st' \<and> isStreaming st' \<and>
           blockSize st' = blockSize st \<and> channels st' = channels st"
proof -
  have "\<exists>st1 msgs. announce rt None st = (None, st1) \<and> st1 = st\<lparr>sent := sent st @ msgs, startSent := True\<rparr>"
  proof (cases "startSent st")
    case True
    then show ?thesis by (intro exI [of _ st] exI [of _ "[]"]) (simp add: announce_def)
  next
    case False
    with assms(5) have "start_encodable rt st" by simp
    then have ok: "\<exists>m. start_message rt st sid = Inr m" for sid by (rule start_message_ok)
    have f: "fst (start_each rt (map snd (sinks st)) st) = None" by (rule start_each_ok [OF ok])
    from start_each_effect [of rt "map snd (sinks st)" st] obtain msgs where
      "snd (start_each rt (map snd (sinks st)) st) = st\<lparr>sent := sent st @ msgs\<rparr>" by blast
    with f have "start_each rt (map snd (sinks st)) st = (None, st\<lparr>sent := sent st @ msgs\<rparr>)"
      by (cases "start_each rt (map snd (sinks st)) st") simp
    then show ?thesis
      using False
      by (intro exI [of _ "st\<lparr>sent := sent st @ msgs, startSent := True\<rparr>"] exI [of _ msgs])
         (simp add: announce_def sendStartToAllSinks_def)
  qed
  then obtain st1 msgs where an: "announce rt None st = (None, st1)"
    and st1: "st1 = st\<lparr>sent := sent st @ msgs, startSent := True\<rparr>" by blast
  define st2 where "st2 = st1\<lparr>sampleBuffer := push_samples l r (sampleBuffer st1)\<rparr>"
  have c2: "blockSize st2 = blockSize st" "channels st2 = channels st" "streamId st2 = streamId st"
    "sequence st2 = sequence st" "isStreaming st2 = isStreaming st" "startSent st2"
    by (simp_all add: st2_def st1)
  have fe2: "frame_encodable rt st2" using assms(4) by (simp add: frame_encodable_def c2)
  let ?n = "length (sampleBuffer st2) div nat (blockSize st2 * channels st2)"
  have dr: "drain rt st2 = Some (send_blocks rt ?n st2)"
    by (rule drain_send_blocks) (simp add: c2 assms(2))
  have nr: "fst (send_blocks rt ?n st2) = None"
    by (rule send_blocks_no_raise [OF fe2]) (simp add: c2 assms(3))
  define st3 where "st3 = snd (send_blocks rt ?n st2)"
  have sb: "send_blocks rt ?n st2 = (None, st3)"
    using nr by (cases "send_blocks rt ?n st2") (simp add: st3_def)
  have rng: "0 \<le> sequence st2" "sequence st2 < 0x7FFFFFFF"
    using assms(4) by (simp_all add: frame_encodable_def c2)
  from send_blocks_effect [OF rng, of ?n rt] obtain m ms where
    "snd (send_blocks rt ?n st2)
       = st2\<lparr>sampleBuffer := drop ((if fst (send_blocks rt ?n st2) = None then ?n else Suc m)
                                     * nat (blockSize st2 * channels st2)) (sampleBuffer st2),
            sent := sent st2 @ ms, sequence := seq_at (sequence st2) m\<rparr>"
    by (elim exE conjE) (rule that)
  then have c3: "blockSize st3 = blockSize st" "channels st3 = channels st" "streamId st3 = streamId st"
    "sequence st3 = seq_at (sequence st2) m" "isStreaming st3 = isStreaming st" "startSent st3"
    by (simp_all add: c2 st3_def)
  have fe3: "frame_encodable rt st3"
    using assms(4) seq_at_range by (simp add: frame_encodable_def c3)
  have "sendAudio rt l r None st = Some (None, st3)"
    using assms(1) by (simp add: sendAudio_def an st2_def [symmetric] dr sb)
  then show ?thesis
    using fe3 assms(1) by (intro exI [of _ st3]) (simp add: c3)
qed



section \<open>Buffering\<close>






section \<open>The dispatcher\<close>

text \<open>
  \<open>_handleMessage\<close> in terms of the address and the arguments that it reads, and what
  its replies leave of the session.
\<close>

lemma handleMessage_alt:
  "handleMessage rt now msg h p st =
     (case osc_address msg of
        None \<Rightarrow> (None, st)
      | Some address \<Rightarrow>
          if str_includes address ''/invite'' then
            (case osc_args msg of
               Inl e \<Rightarrow> (None, st)
             | Inr args \<Rightarrow>
                 if length args \<ge> 2 then
                   (case sendStartOSC rt h p 1
                           (addSink h p 1 (st\<lparr>streamId := args ! 1, formatId := 0, sequence := 0\<rparr>)) of
                      (Some e, st3) \<Rightarrow> (None, st3)
                    | (None, st3) \<Rightarrow> (None, start st3))
                 else (None, st))
          else if str_includes address ''/start'' then
            (let st1 = (case osc_args msg of
                          Inl e \<Rightarrow> st
                        | Inr args \<Rightarrow> if length args \<ge> 2 then st\<lparr>sinkVersion := args ! 1\<rparr> else st)
             in sendStartOSC rt h p 1
                  (if \<not> map_has (h, p, 1) (sinks st1) then addSink h p 1 st1 else st1))
          else if str_includes address ''/ping'' then
            (None, sendPong rt now h p msg (nat (indexOf msg 0 0)) st)
          else (None, st))"
  by (simp add: handleMessage_def osc_address_def osc_args_def Let_def split: sum.splits)

text \<open>
  What \<open>start()\<close> resets, and two integers whose printing in a template literal is
  left to the runtime.
\<close>

lemma start_resets:
  assumes "\<not> isStreaming st"
  shows "start st = st\<lparr>isStreaming := True, sequence := 0, sampleBuffer := [],
                        startSent := False, detectedSampleRate := None\<rparr>"
    and "detectedSampleRate (start st) = None" and "startSent (start st) = False"
    and "sampleBuffer (start st) = []"
  using assms by (simp_all add: start_def)

lemma to_string_beyond_safe:
  "to_string rt (JNum (Num (2 ^ 60))) = rt_string rt (JNum (Num (2 ^ 60)))"
  "to_string rt (JNum (Num (2 ^ 53))) = rt_string rt (JNum (Num (2 ^ 53)))"
  by (simp_all add: to_string_def)

lemma example_start_address: "osc_address example_start = Some ''/aoo/src/1/start''"
  by code_simp

lemma example_start_args: "osc_args example_start = Inr [int_val 1, int_val 5]"
  by code_simp

lemma includes_start:
  "\<not> str_includes ''/aoo/src/1/start'' ''/invite''" "str_includes ''/aoo/src/1/start'' ''/start''"
  by code_simp+

lemma encode_args_second:
  "encode_arg rt b = Inl JsError \<Longrightarrow> encode_args rt (a # b # rest) = Inl JsError"
  by (cases "encode_arg rt a") (simp_all, metis error.exhaust)

lemma start_message_bad_version:
  assumes "truthy (sinkVersion st)" "\<And>s. sinkVersion st \<noteq> JStr s"
  shows "start_message rt st sid = Inl JsError"
proof -
  have "encode_arg rt (CHR ''s'', if truthy (sinkVersion st) then sinkVersion st else JStr ''2.0'')
          = Inl JsError"
    using assms by (cases "sinkVersion st") (auto simp: encode_arg_def)
  then show ?thesis
    unfolding start_message_def buildOSCMessage_def start_args_def Let_def
    by (simp only: encode_args_second sum.case)
qed

lemma sendStartOSC_effect:
  "\<exists>msgs. snd (sendStartOSC rt h p sid st) = st\<lparr>sent := sent st @ msgs\<rparr>"
proof (cases "start_message rt st sid")
  case (Inl e)
  then have "snd (sendStartOSC rt h p sid st) = st\<lparr>sent := sent st @ []\<rparr>"
    by (simp add: sendStartOSC_def)
  then show ?thesis ..
next
  case (Inr m)
  then have "snd (sendStartOSC rt h p sid st) = st\<lparr>sent := sent st @ [(m, p, h)]\<rparr>"
    by (simp add: sendStartOSC_def)
  then show ?thesis ..
qed

lemma sendPong_effect:
  "\<exists>msgs. sendPong rt now h p msg n st = st\<lparr>sent := sent st @ msgs\<rparr> \<and>
     length msgs \<le> 1 \<and> list_all (\<lambda>d. snd d = (p, h)) msgs"
proof -
  have "sendPong rt now h p msg n st = st\<lparr>sent := sent st @ []\<rparr>
      \<or> (\<exists>m. sendPong rt now h p msg n st = st\<lparr>sent := sent st @ [(m, p, h)]\<rparr>)"
    unfolding sendPong_def Let_def
    by (simp split: sum.split option.split) blast
  then show ?thesis
  proof (elim disjE exE)
    assume "sendPong rt now h p msg n st = st\<lparr>sent := sent st @ []\<rparr>"
    then show ?thesis by (intro exI [of _ "[]"]) simp
  next
    fix m assume "sendPong rt now h p msg n st = st\<lparr>sent := sent st @ [(m, p, h)]\<rparr>"
    then show ?thesis by (intro exI [of _ "[(m, p, h)]"]) simp
  qed
qed





section \<open>Sequence numbers\<close>




lemma example_invite_address: "osc_address example_invite = Some ''/aoo/src/1/invite''"
  by code_simp

lemma example_invite_args: "osc_args example_invite = Inr [int_val 1, int_val 777]"
  by code_simp

lemma example_ping_address: "osc_address example_ping = Some ''/aoo/src/1/ping''"
  by code_simp

lemma example_ping_args: "osc_args example_ping = Inr [int_val 1, int_val 123456]"
  by code_simp

lemma includes_invite: "str_includes ''/aoo/src/1/invite'' ''/invite''"
  by code_simp

lemma includes_ping:
  "\<not> str_includes ''/aoo/src/1/ping'' ''/invite''" "\<not> str_includes ''/aoo/src/1/ping'' ''/start''"
  "str_includes ''/aoo/src/1/ping'' ''/ping''"
  by code_simp+




section \<open>Exceptions that leave the dispatcher\<close>

text \<open>
  C7: the handler does not contain every exception. The example session receives from
  10.0.0.5:7000 a \<open>/start\<close> datagram whose second argument is the integer 5: the handler
  stores 5 as the version of the sink and registers the sender, and then the reply,
  which the \<open>/start\<close> branch builds outside of its \<open>try\<close> block, raises, the version not
  being a string; the exception leaves the handler, and the session keeps the version.
\<close>

theorem start_reply_raises:
  "handleMessage example_runtime 0 example_start ''10.0.0.5'' 7000 example_session
     = (Some JsError, addSink ''10.0.0.5'' 7000 1 (example_session\<lparr>sinkVersion := int_val 5\<rparr>))"
proof -
  let ?st = "addSink ''10.0.0.5'' 7000 1 (example_session\<lparr>sinkVersion := int_val 5\<rparr>)"
  have v: "sinkVersion ?st = int_val 5" by (simp add: addSink_def)
  have m: "start_message example_runtime ?st 1 = Inl JsError"
    by (rule start_message_bad_version) (simp_all add: addSink_def int_val_def truthy_def)
  have n: "\<not> map_has (''10.0.0.5'', 7000, 1) (sinks (example_session\<lparr>sinkVersion := int_val 5\<rparr>))"
    by (simp add: map_has_def example_session_eq)
  show ?thesis
    unfolding handleMessage_alt example_start_address example_start_args
    using n by (simp add: includes_start sendStartOSC_def m)
qed

section \<open>The invitation\<close>

lemma map_of_map_set: "map_of (map_set k v m) k = Some v"
  by (induction m) auto

lemma map_of_map_set_other: "k' \<noteq> k \<Longrightarrow> map_of (map_set k v m) k' = map_of m k'"
  by (induction m) auto

lemma encode_args_raise:
  "a \<in> set args \<Longrightarrow> encode_arg rt a = Inl e \<Longrightarrow> encode_args rt args = Inl JsError"
proof (induction args)
  case Nil
  then show ?case by simp
next
  case (Cons b args)
  have j: "x = JsError" for x :: error by (cases x) simp
  show ?case
  proof (cases "encode_arg rt b")
    case (Inl x)
    then show ?thesis by (simp add: j)
  next
    case (Inr y)
    with Cons.prems have "a \<in> set args" by auto
    from Cons.IH [OF this Cons.prems(2)] show ?thesis using Inr by simp
  qed
qed

lemma start_message_bad_stream:
  assumes "encode_arg rt (CHR ''i'', streamId st) = Inl e"
  shows "start_message rt st sid = Inl JsError"
proof -
  have "(CHR ''i'', streamId st) \<in> set (start_args st)" by (simp add: start_args_def)
  from encode_args_raise [OF this assms] show ?thesis
    by (simp add: start_message_def buildOSCMessage_def)
qed

lemma start_encodable_addSink: "start_encodable rt (addSink h p i st) = start_encodable rt st"
  by (simp add: start_encodable_def addSink_def)

lemma start_message_addSink: "start_message rt (addSink h p i st) sid = start_message rt st sid"
  by (simp add: start_message_def start_args_def addSink_def)

lemma parse_step_f:
  "parse_loop (pre @ be32 w @ post) (CHR ''f'' # tags) (int (length pre)) acc
     = parse_loop (pre @ be32 w @ post) tags (int (length pre) + 4) (acc @ [JNum (float_value w)])"
  using read_u32_be32 [of pre w post] by (simp add: readFloatBE_def length_be32)

lemma float_two_32: "float_value 0x4F800000 = Num 4294967296"
  by (simp add: float_value_def)

lemma invite_reply:
  assumes a: "osc_address msg = Some address" "str_includes address ''/invite''"
    and g: "osc_args msg = Inr args" "2 \<le> length args"
    and m: "start_message rt (addSink h p 1 (st\<lparr>streamId := args ! 1, formatId := 0, sequence := 0\<rparr>)) 1
              = Inr m"
  shows "handleMessage rt now msg h p st
           = (None, start ((addSink h p 1 (st\<lparr>streamId := args ! 1, formatId := 0, sequence := 0\<rparr>))
                              \<lparr>sent := sent st @ [(m, p, h)]\<rparr>))"
proof -
  have "sent (addSink h p 1 (st\<lparr>streamId := args ! 1, formatId := 0, sequence := 0\<rparr>)) = sent st"
    by (simp add: addSink_def)
  then show ?thesis
    unfolding handleMessage_alt a(1) using a(2) g m by (simp add: sendStartOSC_def)
qed

lemma invite_no_reply:
  assumes a: "osc_address msg = Some address" "str_includes address ''/invite''"
    and g: "osc_args msg = Inr args" "2 \<le> length args"
    and m: "start_message rt (addSink h p 1 (st\<lparr>streamId := args ! 1, formatId := 0, sequence := 0\<rparr>)) 1
              = Inl e"
  shows "handleMessage rt now msg h p st
           = (None, addSink h p 1 (st\<lparr>streamId := args ! 1, formatId := 0, sequence := 0\<rparr>))"
  unfolding handleMessage_alt a(1) using a(2) g m by (simp add: sendStartOSC_def)

lemma invite_ignored:
  assumes a: "osc_address msg = Some address" "str_includes address ''/invite''"
    and n: "\<not> invite_accepted msg"
  shows "handleMessage rt now msg h p st = (None, st)"
  unfolding handleMessage_alt a(1) using a(2) n
  by (simp add: invite_accepted_def a(1) split: sum.splits)

text \<open>
  C5: a datagram whose address contains \<open>/invite\<close> and whose arguments decode to at
  least two values makes the dispatcher adopt the second as the stream id, reset the
  format id and the sequence number to 0 and register the sender as sink 1. If the
  \<open>/start\<close> message of the session with the adopted stream id can be encoded, the
  handler then sends that message, and only it, to the sender, calls \<open>start()\<close>, so that
  the session is streaming, and returns normally; the other sinks of the registry are
  as they were. If the message cannot be encoded, the exception is swallowed: the
  adopted values and the registration stay, nothing is sent and \<open>start()\<close> is not called.
  A datagram whose arguments do not decode, or decode to fewer than two values, changes
  nothing and sends nothing.
\<close>

theorem invite_handshake:
  assumes "osc_address msg = Some address" "str_includes address ''/invite''"
  shows
    "(osc_args msg = Inr args \<and> 2 \<le> length args \<and>
        start_encodable rt (st\<lparr>streamId := args ! 1, formatId := 0, sequence := 0\<rparr>) \<longrightarrow>
       (\<exists>m out. handleMessage rt now msg h p st = (None, out) \<and>
          start_message rt (st\<lparr>streamId := args ! 1, formatId := 0, sequence := 0\<rparr>) 1 = Inr m \<and>
          streamId out = args ! 1 \<and> formatId out = 0 \<and> sequence out = 0 \<and>
          map_of (sinks out) (h, p, 1) = Some \<lparr>host = h, port = p, sinkId = 1, active = True\<rparr> \<and>
          (\<forall>k. k \<noteq> (h, p, 1) \<longrightarrow> map_of (sinks out) k = map_of (sinks st) k) \<and>
          sent out = sent st @ [(m, p, h)] \<and>
          isStreaming out \<and>
          out = start ((addSink h p 1 (st\<lparr>streamId := args ! 1, formatId := 0, sequence := 0\<rparr>))
                          \<lparr>sent := sent st @ [(m, p, h)]\<rparr>))) \<and>
     (osc_args msg = Inr args \<and> 2 \<le> length args \<and>
        start_message rt (st\<lparr>streamId := args ! 1, formatId := 0, sequence := 0\<rparr>) 1 = Inl e \<longrightarrow>
        handleMessage rt now msg h p st
          = (None, addSink h p 1 (st\<lparr>streamId := args ! 1, formatId := 0, sequence := 0\<rparr>))) \<and>
     (\<not> invite_accepted msg \<longrightarrow> handleMessage rt now msg h p st = (None, st))"
proof (intro conjI)
  let ?st1 = "st\<lparr>streamId := args ! 1, formatId := 0, sequence := 0\<rparr>"
  let ?st2 = "addSink h p 1 ?st1"
  show "osc_args msg = Inr args \<and> 2 \<le> length args \<and> start_encodable rt ?st1 \<longrightarrow>
       (\<exists>m out. handleMessage rt now msg h p st = (None, out) \<and>
          start_message rt ?st1 1 = Inr m \<and>
          streamId out = args ! 1 \<and> formatId out = 0 \<and> sequence out = 0 \<and>
          map_of (sinks out) (h, p, 1) = Some \<lparr>host = h, port = p, sinkId = 1, active = True\<rparr> \<and>
          (\<forall>k. k \<noteq> (h, p, 1) \<longrightarrow> map_of (sinks out) k = map_of (sinks st) k) \<and>
          sent out = sent st @ [(m, p, h)] \<and>
          isStreaming out \<and>
          out = start (?st2\<lparr>sent := sent st @ [(m, p, h)]\<rparr>))"
  proof (rule impI)
    assume h: "osc_args msg = Inr args \<and> 2 \<le> length args \<and> start_encodable rt ?st1"
    then have g: "osc_args msg = Inr args" "2 \<le> length args" and e: "start_encodable rt ?st1"
      by simp_all
    from start_message_ok [OF e, of 1] obtain m where m: "start_message rt ?st1 1 = Inr m" ..
    then have m2: "start_message rt ?st2 1 = Inr m" by (simp only: start_message_addSink)
    define out where "out = start (?st2\<lparr>sent := sent st @ [(m, p, h)]\<rparr>)"
    have r: "handleMessage rt now msg h p st = (None, out)"
      unfolding out_def by (rule invite_reply [OF assms g m2])
    have f: "streamId out = args ! 1" "formatId out = 0" "sequence out = 0"
      "sent out = sent st @ [(m, p, h)]" "isStreaming out"
      by (simp_all add: out_def start_def addSink_def)
    have s: "sinks out = map_set (h, p, 1) \<lparr>host = h, port = p, sinkId = 1, active = True\<rparr> (sinks st)"
      by (simp add: out_def start_def addSink_def)
    have k1: "map_of (sinks out) (h, p, 1) = Some \<lparr>host = h, port = p, sinkId = 1, active = True\<rparr>"
      unfolding s by (rule map_of_map_set)
    have k2: "\<forall>k. k \<noteq> (h, p, 1) \<longrightarrow> map_of (sinks out) k = map_of (sinks st) k"
      unfolding s by (simp add: map_of_map_set_other)
    show "\<exists>m out. handleMessage rt now msg h p st = (None, out) \<and>
          start_message rt ?st1 1 = Inr m \<and>
          streamId out = args ! 1 \<and> formatId out = 0 \<and> sequence out = 0 \<and>
          map_of (sinks out) (h, p, 1) = Some \<lparr>host = h, port = p, sinkId = 1, active = True\<rparr> \<and>
          (\<forall>k. k \<noteq> (h, p, 1) \<longrightarrow> map_of (sinks out) k = map_of (sinks st) k) \<and>
          sent out = sent st @ [(m, p, h)] \<and>
          isStreaming out \<and>
          out = start (?st2\<lparr>sent := sent st @ [(m, p, h)]\<rparr>)"
      by (intro exI [of _ m] exI [of _ out] conjI)
         (rule r, rule m, rule f(1), rule f(2), rule f(3), rule k1, rule k2, rule f(4), rule f(5),
          rule out_def)
  qed
  show "osc_args msg = Inr args \<and> 2 \<le> length args \<and> start_message rt ?st1 1 = Inl e \<longrightarrow>
        handleMessage rt now msg h p st = (None, ?st2)"
  proof (rule impI)
    assume h: "osc_args msg = Inr args \<and> 2 \<le> length args \<and> start_message rt ?st1 1 = Inl e"
    then have g: "osc_args msg = Inr args" "2 \<le> length args" and m: "start_message rt ?st1 1 = Inl e"
      by simp_all
    from m have m2: "start_message rt ?st2 1 = Inl e" by (simp only: start_message_addSink)
    show "handleMessage rt now msg h p st = (None, ?st2)"
      by (rule invite_no_reply [OF assms g m2])
  qed
  show "\<not> invite_accepted msg \<longrightarrow> handleMessage rt now msg h p st = (None, st)"
    using invite_ignored [OF assms] by (rule impI)
qed

lemma example_float_invite_address: "osc_address example_float_invite = Some ''/aoo/src/1/invite''"
  by code_simp

lemma example_short_invite_address: "osc_address example_short_invite = Some ''/aoo/src/1/invite''"
  by code_simp

lemma example_short_invite_args: "osc_args example_short_invite = Inr [int_val 1]"
  by code_simp

lemma example_float_invite_args:
  "osc_args example_float_invite = Inr [int_val 1, JNum (Num 4294967296)]"
proof -
  let ?a = "''/aoo/src/1/invite''"
  let ?pre = "padded ?a @ padded '',if''"
  let ?one = "be32 (word_of_int 1)"
  let ?buf = "?pre @ ?one @ be32 0x4F800000"
  have t: "ascii_text ?a" "ascii_text '',if''" by (simp_all add: ascii_text_def)
  have b: "example_float_invite = padded ?a @ padded '',if'' @ ?one @ be32 0x4F800000"
    by (simp add: example_float_invite_def)
  have b1: "example_float_invite = ?buf"
    unfolding b by (simp only: append_assoc)
  have b2: "?buf = (?pre @ ?one) @ be32 0x4F800000 @ []"
    by (simp only: append_assoc append_Nil2)
  have i: "indexOf example_float_invite 0 0 = int (length ?a)"
    unfolding b by (rule parseOscArgs_envelope(1) [OF t])
  have l: "int (length ?pre) + 4 = int (length (?pre @ ?one))"
    by (simp only: length_append length_be32 of_nat_add)
  have "osc_args example_float_invite = parseOscArgs example_float_invite (length ?a)"
    unfolding osc_args_def i nat_int ..
  also have "\<dots> = parse_loop example_float_invite ''if'' (int (length ?pre)) []"
    unfolding b by (rule parseOscArgs_envelope(3) [OF t])
  also have "\<dots> = parse_loop ?buf ''if'' (int (length ?pre)) []"
    unfolding b1 ..
  also have "\<dots> = parse_loop ?buf ''f'' (int (length ?pre) + 4) ([] @ [int_val 1])"
    by (rule parse_step_i) simp_all
  also have "\<dots> = parse_loop ((?pre @ ?one) @ be32 0x4F800000 @ []) ''f''
                      (int (length (?pre @ ?one))) ([] @ [int_val 1])"
    unfolding l b2 ..
  also have "\<dots> = parse_loop ((?pre @ ?one) @ be32 0x4F800000 @ []) []
                      (int (length (?pre @ ?one)) + 4)
                      (([] @ [int_val 1]) @ [JNum (float_value 0x4F800000)])"
    by (rule parse_step_f)
  also have "\<dots> = Inr [int_val 1, JNum (Num 4294967296)]"
    by (simp add: float_two_32)
  finally show ?thesis .
qed

lemma example_invite_encodable:
  "start_encodable example_runtime (example_session\<lparr>streamId := int_val 777, formatId := 0, sequence := 0\<rparr>)"
  by (simp add: start_encodable_def example_session_eq in_int32_def to_number_def int_val_def
        writeInt32BE_def)

lemma example_float_invite_raises:
  "start_message example_runtime
     (example_session\<lparr>streamId := JNum (Num 4294967296), formatId := 0, sequence := 0\<rparr>) 1
     = Inl JsError"
  by (rule start_message_bad_stream [of _ _ JsError])
     (simp add: encode_arg_def to_number_def writeInt32BE_def)

lemma example_short_invite_ignored: "\<not> invite_accepted example_short_invite"
  by (simp add: invite_accepted_def example_short_invite_address example_short_invite_args)

lemma example_float_invite_accepted: "invite_accepted example_float_invite"
  by (simp add: invite_accepted_def example_float_invite_address example_float_invite_args
        includes_invite)

theorem invite_handshake_witness:
  "osc_address example_invite = Some ''/aoo/src/1/invite'' \<and>
   str_includes ''/aoo/src/1/invite'' ''/invite'' \<and>
   osc_args example_invite = Inr [int_val 1, int_val 777] \<and>
   start_encodable example_runtime
     (example_session\<lparr>streamId := int_val 777, formatId := 0, sequence := 0\<rparr>) \<and>
   (\<exists>m out. handleMessage example_runtime 0 example_invite ''10.0.0.5'' 7000 example_session
                = (None, out) \<and>
      start_message example_runtime
        (example_session\<lparr>streamId := int_val 777, formatId := 0, sequence := 0\<rparr>) 1 = Inr m \<and>
      streamId out = int_val 777 \<and> formatId out = 0 \<and> sequence out = 0 \<and>
      map_of (sinks out) (''10.0.0.5'', 7000, 1)
        = Some \<lparr>host = ''10.0.0.5'', port = 7000, sinkId = 1, active = True\<rparr> \<and>
      sent out = [(m, 7000, ''10.0.0.5'')] \<and> isStreaming out) \<and>
   osc_address example_float_invite = Some ''/aoo/src/1/invite'' \<and>
   osc_args example_float_invite = Inr [int_val 1, JNum (Num 4294967296)] \<and>
   start_message example_runtime
     (example_session\<lparr>streamId := JNum (Num 4294967296), formatId := 0, sequence := 0\<rparr>) 1
     = Inl JsError \<and>
   handleMessage example_runtime 0 example_float_invite ''10.0.0.5'' 7000 example_session
     = (None, addSink ''10.0.0.5'' 7000 1
                (example_session\<lparr>streamId := JNum (Num 4294967296), formatId := 0, sequence := 0\<rparr>)) \<and>
   osc_address example_short_invite = Some ''/aoo/src/1/invite'' \<and>
   \<not> invite_accepted example_short_invite \<and>
   handleMessage example_runtime 0 example_short_invite ''10.0.0.5'' 7000 example_session
     = (None, example_session)"
proof -
  let ?args = "[int_val 1, int_val 777]"
  let ?fargs = "[int_val 1, JNum (Num 4294967296)]"
  have n: "?args ! 1 = int_val 777" "?fargs ! 1 = JNum (Num 4294967296)"
    "2 \<le> length ?args" "2 \<le> length ?fargs" by simp_all
  have s0: "sent example_session = []" by (simp add: example_session_eq)
  note t1 = invite_handshake [OF example_invite_address includes_invite,
      where args = ?args and rt = example_runtime and st = example_session and now = 0
        and h = "''10.0.0.5''" and p = 7000 and e = JsError]
  note t2 = invite_handshake [OF example_float_invite_address includes_invite,
      where args = ?fargs and rt = example_runtime and st = example_session and now = 0
        and h = "''10.0.0.5''" and p = 7000 and e = JsError]
  note t3 = invite_handshake [OF example_short_invite_address includes_invite,
      where args = "[]" and rt = example_runtime and st = example_session and now = 0
        and h = "''10.0.0.5''" and p = 7000 and e = JsError]
  have c1: "\<exists>m out. handleMessage example_runtime 0 example_invite ''10.0.0.5'' 7000 example_session
                = (None, out) \<and>
      start_message example_runtime
        (example_session\<lparr>streamId := int_val 777, formatId := 0, sequence := 0\<rparr>) 1 = Inr m \<and>
      streamId out = int_val 777 \<and> formatId out = 0 \<and> sequence out = 0 \<and>
      map_of (sinks out) (''10.0.0.5'', 7000, 1)
        = Some \<lparr>host = ''10.0.0.5'', port = 7000, sinkId = 1, active = True\<rparr> \<and>
      sent out = [(m, 7000, ''10.0.0.5'')] \<and> isStreaming out"
    using t1 [THEN conjunct1] example_invite_args example_invite_encodable
    unfolding n s0 by auto
  have c2: "handleMessage example_runtime 0 example_float_invite ''10.0.0.5'' 7000 example_session
     = (None, addSink ''10.0.0.5'' 7000 1
                (example_session\<lparr>streamId := JNum (Num 4294967296), formatId := 0, sequence := 0\<rparr>))"
    using t2 [THEN conjunct2, THEN conjunct1] example_float_invite_args example_float_invite_raises
    unfolding n by simp
  have c3: "handleMessage example_runtime 0 example_short_invite ''10.0.0.5'' 7000 example_session
     = (None, example_session)"
    using t3 [THEN conjunct2, THEN conjunct2] example_short_invite_ignored by simp
  from example_invite_address includes_invite example_invite_args example_invite_encodable c1
    example_float_invite_address example_float_invite_args example_float_invite_raises c2
    example_short_invite_address example_short_invite_ignored c3
  show ?thesis by - (intro conjI; assumption)
qed

text \<open>
  The claim C5 as stated fails: an invitation whose token is the float \<open>2 ^ 32\<close> is
  accepted, the token is adopted and the sender registered, but the \<open>/start\<close> message
  cannot be encoded; the exception is swallowed, nothing is sent and the session is not
  streaming.
\<close>

theorem invite_without_start_counterexample:
  "invite_accepted example_float_invite \<and>
   handleMessage example_runtime 0 example_float_invite ''10.0.0.5'' 7000 example_session
     = (None, addSink ''10.0.0.5'' 7000 1
                (example_session\<lparr>streamId := JNum (Num 4294967296), formatId := 0, sequence := 0\<rparr>)) \<and>
   sent (snd (handleMessage example_runtime 0 example_float_invite ''10.0.0.5'' 7000 example_session))
     = [] \<and>
   \<not> isStreaming
       (snd (handleMessage example_runtime 0 example_float_invite ''10.0.0.5'' 7000 example_session))"
proof -
  have m: "start_message example_runtime
     (addSink ''10.0.0.5'' 7000 1
        (example_session\<lparr>streamId := [int_val 1, JNum (Num 4294967296)] ! 1, formatId := 0,
           sequence := 0\<rparr>)) 1 = Inl JsError"
    using example_float_invite_raises by (simp add: start_message_addSink)
  have r: "handleMessage example_runtime 0 example_float_invite ''10.0.0.5'' 7000 example_session
     = (None, addSink ''10.0.0.5'' 7000 1
                (example_session\<lparr>streamId := JNum (Num 4294967296), formatId := 0, sequence := 0\<rparr>))"
    using invite_no_reply [OF example_float_invite_address includes_invite
        example_float_invite_args _ m, of 0]
    by simp
  show ?thesis
    unfolding r using example_float_invite_accepted
    by (simp add: addSink_def example_session_eq)
qed

section \<open>Pings\<close>

lemma encode_arg_t:
  "0 \<le> n \<Longrightarrow> n < 2 ^ 64 \<Longrightarrow> encode_arg rt (CHR ''t'', JBig n) = Inr (be64 (word_of_int n))"
  by (simp add: encode_arg_def writeBigUInt64BE_def)

lemma encode_arg_t_raises:
  "n < 0 \<or> 2 ^ 64 \<le> n \<Longrightarrow> encode_arg rt (CHR ''t'', JBig n) = Inl JsError"
  by (auto simp: encode_arg_def writeBigUInt64BE_def)

lemma pong_message:
  assumes "in_int32 sid" "0 \<le> t1" "t1 < 2 ^ 64" "0 \<le> t2" "t2 < 2 ^ 64"
  shows "buildOSCMessage rt addr [(CHR ''i'', int_val sid), (CHR ''t'', JBig t1), (CHR ''t'', JBig t2)]
           = Inr (padded addr @ padded '',itt'' @ be32 (word_of_int sid) @ be64 (word_of_int t1)
                    @ be64 (word_of_int t2))"
  using assms by (simp add: buildOSCMessage_def encode_arg_in_int32 encode_arg_t)

lemma sendPong_sent:
  assumes "parseOscArgs msg n = Inr args" "2 \<le> length args"
    "to_bigint rt (if truthy (args ! 1) then args ! 1 else int_val 0) = Some t1"
    "buildOSCMessage rt (''/aoo/sink/'' @ to_string rt (args ! 0) @ ''/pong'')
       [(CHR ''i'', int_val (sourceId st)), (CHR ''t'', JBig t1), (CHR ''t'', JBig (now * 1000000))]
       = Inr pong"
  shows "sendPong rt now h p msg n st = st\<lparr>sent := sent st @ [(pong, p, h)]\<rparr>"
  using assms by (simp add: sendPong_def Let_def split del: if_split cong: if_cong)

lemma sendPong_silent:
  assumes "parseOscArgs msg n = Inr args" "2 \<le> length args"
    "case to_bigint rt (if truthy (args ! 1) then args ! 1 else int_val 0) of
       None \<Rightarrow> True | Some t \<Rightarrow> t < 0 \<or> 2 ^ 64 \<le> t"
  shows "sendPong rt now h p msg n st = st"
proof (cases "to_bigint rt (if truthy (args ! 1) then args ! 1 else int_val 0)")
  case None
  then show ?thesis using assms(1,2) by (simp add: sendPong_def Let_def split del: if_split cong: if_cong)
next
  case (Some t)
  with assms(3) have "t < 0 \<or> 2 ^ 64 \<le> t" by simp
  then have "encode_arg rt (CHR ''t'', JBig t) = Inl JsError" by (rule encode_arg_t_raises)
  then have "buildOSCMessage rt (''/aoo/sink/'' @ to_string rt (args ! 0) @ ''/pong'')
       [(CHR ''i'', int_val (sourceId st)), (CHR ''t'', JBig t), (CHR ''t'', JBig (now * 1000000))]
       = Inl JsError"
    using encode_args_raise [of "(CHR ''t'', JBig t)"
        "[(CHR ''i'', int_val (sourceId st)), (CHR ''t'', JBig t), (CHR ''t'', JBig (now * 1000000))]"
        rt JsError]
    by (simp add: buildOSCMessage_def)
  then show ?thesis using assms(1,2) Some
    by (simp add: sendPong_def Let_def split del: if_split cong: if_cong)
qed

text \<open>
  C9: a datagram whose address contains \<open>/ping\<close>, and neither \<open>/invite\<close> nor \<open>/start\<close>,
  never makes the handler raise and changes nothing of the session but the transport,
  to which it appends at most one datagram, addressed to the sender. When the arguments
  decode to at least two values, the second (or 0 in its place when it is falsy)
  converts to a BigInt from 0 to \<open>2 ^ 64 - 1\<close>, the clock in nanoseconds is below \<open>2 ^ 64\<close>
  and the source id is in the range of \<open>int32\<close>, that datagram is sent, and it is the
  \<open>/pong\<close> with the source id, the time tag of the ping and the clock, whether or not
  the sender is in the registry. When the second argument does not convert, or converts
  to a BigInt outside of that range, nothing is sent.
\<close>

theorem ping_reply:
  assumes "osc_address msg = Some address" "str_includes address ''/ping''"
    "\<not> str_includes address ''/invite''" "\<not> str_includes address ''/start''"
  shows "\<exists>msgs. handleMessage rt now msg h p st = (None, st\<lparr>sent := sent st @ msgs\<rparr>) \<and>
           length msgs \<le> 1 \<and> list_all (\<lambda>d. snd d = (p, h)) msgs \<and>
           (osc_args msg = Inr args \<and> 2 \<le> length args \<and>
              to_bigint rt (if truthy (args ! 1) then args ! 1 else int_val 0) = Some t1 \<and>
              0 \<le> t1 \<and> t1 < 2 ^ 64 \<and> 0 \<le> now \<and> now * 1000000 < 2 ^ 64 \<and>
              in_int32 (sourceId st) \<longrightarrow>
              msgs = [(padded (''/aoo/sink/'' @ to_string rt (args ! 0) @ ''/pong'') @ padded '',itt''
                         @ be32 (word_of_int (sourceId st)) @ be64 (word_of_int t1)
                         @ be64 (word_of_int (now * 1000000)), p, h)]) \<and>
           (osc_args msg = Inr args \<and> 2 \<le> length args \<and>
              (case to_bigint rt (if truthy (args ! 1) then args ! 1 else int_val 0) of
                 None \<Rightarrow> True | Some t \<Rightarrow> t < 0 \<or> 2 ^ 64 \<le> t) \<longrightarrow>
              msgs = [])"
proof -
  let ?n = "nat (indexOf msg 0 0)"
  have hm: "handleMessage rt now msg h p st = (None, sendPong rt now h p msg ?n st)"
    unfolding handleMessage_alt assms(1) using assms(2-4) by simp
  have pa: "parseOscArgs msg ?n = osc_args msg" by (simp add: osc_args_def)
  from sendPong_effect [of rt now h p msg ?n st] obtain msgs where
    e: "sendPong rt now h p msg ?n st = st\<lparr>sent := sent st @ msgs\<rparr>"
    and l: "length msgs \<le> 1" and d: "list_all (\<lambda>d. snd d = (p, h)) msgs"
    by (elim exE conjE) (rule that)
  have s: "sent (sendPong rt now h p msg ?n st) = sent st @ msgs" unfolding e by simp
  have c1: "msgs = [(padded (''/aoo/sink/'' @ to_string rt (args ! 0) @ ''/pong'') @ padded '',itt''
                         @ be32 (word_of_int (sourceId st)) @ be64 (word_of_int t1)
                         @ be64 (word_of_int (now * 1000000)), p, h)]"
    if h: "osc_args msg = Inr args \<and> 2 \<le> length args \<and>
              to_bigint rt (if truthy (args ! 1) then args ! 1 else int_val 0) = Some t1 \<and>
              0 \<le> t1 \<and> t1 < 2 ^ 64 \<and> 0 \<le> now \<and> now * 1000000 < 2 ^ 64 \<and>
              in_int32 (sourceId st)"
  proof -
    from h have g: "parseOscArgs msg ?n = Inr args" "2 \<le> length args"
      "to_bigint rt (if truthy (args ! 1) then args ! 1 else int_val 0) = Some t1"
      and r: "in_int32 (sourceId st)" "0 \<le> t1" "t1 < 2 ^ 64" "0 \<le> now * 1000000"
        "now * 1000000 < 2 ^ 64"
      by (simp_all add: pa)
    from sendPong_sent [OF g pong_message [OF r], of h p] s show ?thesis by simp
  qed
  have c2: "msgs = []"
    if h: "osc_args msg = Inr args \<and> 2 \<le> length args \<and>
              (case to_bigint rt (if truthy (args ! 1) then args ! 1 else int_val 0) of
                 None \<Rightarrow> True | Some t \<Rightarrow> t < 0 \<or> 2 ^ 64 \<le> t)"
  proof -
    from h have g: "parseOscArgs msg ?n = Inr args" "2 \<le> length args"
      "case to_bigint rt (if truthy (args ! 1) then args ! 1 else int_val 0) of
         None \<Rightarrow> True | Some t \<Rightarrow> t < 0 \<or> 2 ^ 64 \<le> t"
      by (simp_all add: pa)
    from sendPong_silent [OF g, of now h p st] s show ?thesis by simp
  qed
  show ?thesis
  proof (intro exI [of _ msgs] conjI)
    show "handleMessage rt now msg h p st = (None, st\<lparr>sent := sent st @ msgs\<rparr>)"
      unfolding hm e ..
    show "length msgs \<le> 1" by (rule l)
    show "list_all (\<lambda>d. snd d = (p, h)) msgs" by (rule d)
    show "osc_args msg = Inr args \<and> 2 \<le> length args \<and>
              to_bigint rt (if truthy (args ! 1) then args ! 1 else int_val 0) = Some t1 \<and>
              0 \<le> t1 \<and> t1 < 2 ^ 64 \<and> 0 \<le> now \<and> now * 1000000 < 2 ^ 64 \<and>
              in_int32 (sourceId st) \<longrightarrow>
              msgs = [(padded (''/aoo/sink/'' @ to_string rt (args ! 0) @ ''/pong'') @ padded '',itt''
                         @ be32 (word_of_int (sourceId st)) @ be64 (word_of_int t1)
                         @ be64 (word_of_int (now * 1000000)), p, h)]"
      using c1 by (rule impI)
    show "osc_args msg = Inr args \<and> 2 \<le> length args \<and>
              (case to_bigint rt (if truthy (args ! 1) then args ! 1 else int_val 0) of
                 None \<Rightarrow> True | Some t \<Rightarrow> t < 0 \<or> 2 ^ 64 \<le> t) \<longrightarrow>
              msgs = []"
      using c2 by (rule impI)
  qed
qed

lemma example_negative_ping_address: "osc_address example_negative_ping = Some ''/aoo/src/1/ping''"
  by code_simp

lemma example_negative_ping_args: "osc_args example_negative_ping = Inr [int_val 1, int_val (- 5)]"
  by code_simp

lemma example_ping_start_address: "osc_address example_ping_start = Some ''/aoo/src/1/ping/start''"
  by code_simp

lemma example_ping_start_args: "osc_args example_ping_start = Inr [int_val 1, int_val 123456]"
  by code_simp

lemma includes_ping_start:
  "\<not> str_includes ''/aoo/src/1/ping/start'' ''/invite''"
  "str_includes ''/aoo/src/1/ping/start'' ''/start''"
  "str_includes ''/aoo/src/1/ping/start'' ''/ping''"
  by code_simp+

lemma example_sink_name: "to_string example_runtime (int_val 1) = ''1''"
proof -
  have "show_int 1 = ''1''" by code_simp
  then show ?thesis by (simp add: to_string_def int_val_def)
qed

lemma example_time_tag:
  "to_bigint example_runtime (if truthy (int_val 123456) then int_val 123456 else int_val 0)
     = Some 123456"
  by (simp add: truthy_def int_val_def to_bigint_def)

lemma example_negative_time_tag:
  "to_bigint example_runtime (if truthy (int_val (- 5)) then int_val (- 5) else int_val 0)
     = Some (- 5)"
  by (simp add: truthy_def int_val_def to_bigint_def)

theorem ping_reply_witness:
  "osc_address example_ping = Some ''/aoo/src/1/ping'' \<and>
   str_includes ''/aoo/src/1/ping'' ''/ping'' \<and>
   \<not> str_includes ''/aoo/src/1/ping'' ''/invite'' \<and>
   \<not> str_includes ''/aoo/src/1/ping'' ''/start'' \<and>
   osc_args example_ping = Inr [int_val 1, int_val 123456] \<and>
   to_bigint example_runtime (if truthy (int_val 123456) then int_val 123456 else int_val 0)
     = Some 123456 \<and>
   in_int32 (sourceId example_session) \<and>
   \<not> map_has (''10.0.0.5'', 7000, 1) (sinks example_session) \<and>
   handleMessage example_runtime 1000 example_ping ''10.0.0.5'' 7000 example_session
     = (None, example_session\<lparr>sent :=
          [(padded ''/aoo/sink/1/pong'' @ padded '',itt'' @ be32 1 @ be64 123456 @ be64 1000000000,
            7000, ''10.0.0.5'')]\<rparr>) \<and>
   osc_address example_negative_ping = Some ''/aoo/src/1/ping'' \<and>
   osc_args example_negative_ping = Inr [int_val 1, int_val (- 5)] \<and>
   to_bigint example_runtime (if truthy (int_val (- 5)) then int_val (- 5) else int_val 0)
     = Some (- 5) \<and>
   handleMessage example_runtime 1000 example_negative_ping ''10.0.0.5'' 7000 example_session
     = (None, example_session)"
proof -
  let ?args = "[int_val 1, int_val 123456]"
  let ?nargs = "[int_val 1, int_val (- 5)]"
  have v: "sourceId example_session = 1" "sent example_session = []"
    by (simp_all add: example_session_eq)
  have r: "in_int32 (sourceId example_session)" by (simp add: v in_int32_def)
  have nth: "?args ! 1 = int_val 123456" "?nargs ! 1 = int_val (- 5)" by simp_all
  have nm: "\<not> map_has (''10.0.0.5'', 7000, 1) (sinks example_session)"
    by (simp add: map_has_def example_session_eq)
  from ping_reply [OF example_ping_address includes_ping(3) includes_ping(1) includes_ping(2),
      where rt = example_runtime and now = 1000 and h = "''10.0.0.5''" and p = 7000
        and st = example_session and args = ?args and ?t1.0 = 123456]
  obtain msgs where
    e1: "handleMessage example_runtime 1000 example_ping ''10.0.0.5'' 7000 example_session
           = (None, example_session\<lparr>sent := sent example_session @ msgs\<rparr>)"
    and i1: "osc_args example_ping = Inr ?args \<and> 2 \<le> length ?args \<and>
              to_bigint example_runtime (if truthy (?args ! 1) then ?args ! 1 else int_val 0)
                = Some 123456 \<and>
              0 \<le> (123456 :: int) \<and> (123456 :: int) < 2 ^ 64 \<and> 0 \<le> (1000 :: int) \<and>
              (1000 :: int) * 1000000 < 2 ^ 64 \<and> in_int32 (sourceId example_session) \<longrightarrow>
              msgs = [(padded (''/aoo/sink/'' @ to_string example_runtime (?args ! 0) @ ''/pong'')
                         @ padded '',itt'' @ be32 (word_of_int (sourceId example_session))
                         @ be64 (word_of_int 123456) @ be64 (word_of_int (1000 * 1000000)),
                       7000, ''10.0.0.5'')]"
    by (elim exE conjE) (rule that)
  have "osc_args example_ping = Inr ?args \<and> 2 \<le> length ?args \<and>
              to_bigint example_runtime (if truthy (?args ! 1) then ?args ! 1 else int_val 0)
                = Some 123456 \<and>
              0 \<le> (123456 :: int) \<and> (123456 :: int) < 2 ^ 64 \<and> 0 \<le> (1000 :: int) \<and>
              (1000 :: int) * 1000000 < 2 ^ 64 \<and> in_int32 (sourceId example_session)"
    unfolding nth using example_ping_args example_time_tag r by (simp split del: if_split)
  with i1 have m1: "msgs = [(padded (''/aoo/sink/'' @ to_string example_runtime (?args ! 0) @ ''/pong'')
                         @ padded '',itt'' @ be32 (word_of_int (sourceId example_session))
                         @ be64 (word_of_int 123456) @ be64 (word_of_int (1000 * 1000000)),
                       7000, ''10.0.0.5'')]"
    by (rule mp)
  have c1: "handleMessage example_runtime 1000 example_ping ''10.0.0.5'' 7000 example_session
     = (None, example_session\<lparr>sent :=
          [(padded ''/aoo/sink/1/pong'' @ padded '',itt'' @ be32 1 @ be64 123456 @ be64 1000000000,
            7000, ''10.0.0.5'')]\<rparr>)"
    unfolding e1 m1 by (simp add: v example_sink_name)
  from ping_reply [OF example_negative_ping_address includes_ping(3) includes_ping(1) includes_ping(2),
      where rt = example_runtime and now = 1000 and h = "''10.0.0.5''" and p = 7000
        and st = example_session and args = ?nargs and ?t1.0 = 0]
  obtain msgs' where
    e2: "handleMessage example_runtime 1000 example_negative_ping ''10.0.0.5'' 7000 example_session
           = (None, example_session\<lparr>sent := sent example_session @ msgs'\<rparr>)"
    and i2: "osc_args example_negative_ping = Inr ?nargs \<and> 2 \<le> length ?nargs \<and>
              (case to_bigint example_runtime
                      (if truthy (?nargs ! 1) then ?nargs ! 1 else int_val 0) of
                 None \<Rightarrow> True | Some t \<Rightarrow> t < 0 \<or> 2 ^ 64 \<le> t) \<longrightarrow>
              msgs' = []"
    by (elim exE conjE) (rule that)
  have "osc_args example_negative_ping = Inr ?nargs \<and> 2 \<le> length ?nargs \<and>
              (case to_bigint example_runtime
                      (if truthy (?nargs ! 1) then ?nargs ! 1 else int_val 0) of
                 None \<Rightarrow> True | Some t \<Rightarrow> t < 0 \<or> 2 ^ 64 \<le> t)"
    unfolding nth using example_negative_ping_args example_negative_time_tag
    by (simp split del: if_split)
  with i2 have m2: "msgs' = []" by (rule mp)
  have c2: "handleMessage example_runtime 1000 example_negative_ping ''10.0.0.5'' 7000 example_session
     = (None, example_session)"
    unfolding e2 m2 by simp
  from example_ping_address includes_ping(3) includes_ping(1) includes_ping(2) example_ping_args
    example_time_tag r nm c1 example_negative_ping_address example_negative_ping_args
    example_negative_time_tag c2
  show ?thesis by - (intro conjI; assumption)
qed

text \<open>
  The claim C9 as stated fails: a ping whose time tag is \<open>-5\<close> decodes to two arguments
  and gets no pong, the exception of the 64-bit write being swallowed; and a ping whose
  address also contains \<open>/start\<close> is handled by the \<open>/start\<close> branch, which stores the
  time tag as the version of the sink and registers the sender.
\<close>

theorem ping_without_pong_counterexample:
  "osc_address example_negative_ping = Some ''/aoo/src/1/ping'' \<and>
   osc_args example_negative_ping = Inr [int_val 1, int_val (- 5)] \<and>
   handleMessage example_runtime 1000 example_negative_ping ''10.0.0.5'' 7000 example_session
     = (None, example_session) \<and>
   osc_address example_ping_start = Some ''/aoo/src/1/ping/start'' \<and>
   osc_args example_ping_start = Inr [int_val 1, int_val 123456] \<and>
   handleMessage example_runtime 1000 example_ping_start ''10.0.0.5'' 7000 example_session
     = (Some JsError,
        addSink ''10.0.0.5'' 7000 1 (example_session\<lparr>sinkVersion := int_val 123456\<rparr>))"
proof -
  have g: "parseOscArgs example_negative_ping (nat (indexOf example_negative_ping 0 0))
             = Inr [int_val 1, int_val (- 5)]"
    using example_negative_ping_args by (simp add: osc_args_def)
  have s: "sendPong example_runtime 1000 ''10.0.0.5'' 7000 example_negative_ping
             (nat (indexOf example_negative_ping 0 0)) example_session = example_session"
    by (rule sendPong_silent [OF g]) (simp_all add: truthy_def int_val_def to_bigint_def)
  have c1: "handleMessage example_runtime 1000 example_negative_ping ''10.0.0.5'' 7000 example_session
     = (None, example_session)"
    unfolding handleMessage_alt example_negative_ping_address
    by (simp add: includes_ping s)
  let ?st = "addSink ''10.0.0.5'' 7000 1 (example_session\<lparr>sinkVersion := int_val 123456\<rparr>)"
  have m: "start_message example_runtime ?st 1 = Inl JsError"
    by (rule start_message_bad_version) (simp_all add: addSink_def int_val_def truthy_def)
  have n: "\<not> map_has (''10.0.0.5'', 7000, 1) (sinks (example_session\<lparr>sinkVersion := int_val 123456\<rparr>))"
    by (simp add: map_has_def example_session_eq)
  have c2: "handleMessage example_runtime 1000 example_ping_start ''10.0.0.5'' 7000 example_session
     = (Some JsError, ?st)"
    unfolding handleMessage_alt example_ping_start_address example_ping_start_args
    using n by (simp add: includes_ping_start sendStartOSC_def m)
  from example_negative_ping_address example_negative_ping_args c1
    example_ping_start_address example_ping_start_args c2
  show ?thesis by - (intro conjI; assumption)
qed

section \<open>Sessions whose \<open>/start\<close> message cannot be encoded\<close>

lemma writeInt32BE_out_of_range:
  "\<not> in_int32 n \<Longrightarrow> encode_arg rt (CHR ''i'', int_val n) = Inl JsError"
  by (auto simp: in_int32_def encode_arg_def int_val_def to_number_def writeInt32BE_def)

lemma start_not_encodable:
  assumes "\<not> start_encodable rt st"
  shows "start_message rt st sid = Inl JsError"
proof -
  have j: "x = JsError" for x :: error by (cases x) simp
  have "\<exists>a \<in> set (start_args st). encode_arg rt a = Inl JsError"
  proof -
    consider "\<not> in_int32 (sourceId st)" | "\<not> in_int32 (sequence st)" | "\<not> in_int32 (formatId st)"
      | "\<not> in_int32 (channels st)" | "\<not> in_int32 (sampleRate st)" | "\<not> in_int32 (blockSize st)"
      | "\<not> (case to_number rt (streamId st) of Inl e \<Rightarrow> False
             | Inr n \<Rightarrow> (case writeInt32BE n of Inl e \<Rightarrow> False | Inr b \<Rightarrow> True))"
      | "\<not> (case sinkVersion st of JStr s \<Rightarrow> True | v \<Rightarrow> \<not> truthy v)"
      using assms unfolding start_encodable_def by blast
    then show ?thesis
    proof cases
      case 1
      from writeInt32BE_out_of_range [OF this] show ?thesis by (simp add: start_args_def)
    next
      case 2
      from writeInt32BE_out_of_range [OF this] show ?thesis by (simp add: start_args_def)
    next
      case 3
      from writeInt32BE_out_of_range [OF this] show ?thesis by (simp add: start_args_def)
    next
      case 4
      from writeInt32BE_out_of_range [OF this] show ?thesis by (simp add: start_args_def)
    next
      case 5
      from writeInt32BE_out_of_range [OF this] show ?thesis by (simp add: start_args_def)
    next
      case 6
      from writeInt32BE_out_of_range [OF this] show ?thesis by (simp add: start_args_def)
    next
      case 7
      then have "encode_arg rt (CHR ''i'', streamId st) = Inl JsError"
        by (auto simp: encode_arg_def j split: sum.splits)
      then show ?thesis by (simp add: start_args_def)
    next
      case 8
      then have "encode_arg rt (CHR ''s'', if truthy (sinkVersion st) then sinkVersion st else JStr ''2.0'')
                  = Inl JsError"
        by (cases "sinkVersion st") (auto simp: encode_arg_def)
      then show ?thesis by (simp add: start_args_def)
    qed
  qed
  then obtain a where "a \<in> set (start_args st)" "encode_arg rt a = Inl JsError" ..
  from encode_args_raise [OF this] show ?thesis
    by (simp add: start_message_def buildOSCMessage_def)
qed

lemma start_each_raises:
  assumes "\<And>sid. start_message rt st sid = Inl JsError" "filter active ss \<noteq> []"
  shows "start_each rt ss st = (Some JsError, st)"
  using assms(2)
proof (induction ss)
  case Nil
  then show ?case by simp
next
  case (Cons s ss)
  show ?case
  proof (cases "active s")
    case True
    then show ?thesis by (simp add: sendStartOSC_def assms(1))
  next
    case False
    with Cons show ?thesis by simp
  qed
qed

lemma start_each_idle: "filter active ss = [] \<Longrightarrow> start_each rt ss st = (None, st)"
  by (induction ss) (simp_all split: if_splits)

lemma example_poisoned_eq:
  "example_poisoned =
     \<lparr>channels = 2, sampleRate = 48000, blockSize = 4, sourceId = 1,
       sinks = [((''127.0.0.1'', 9999, 1), example_sink),
                ((''10.0.0.5'', 7000, 1),
                 \<lparr>host = ''10.0.0.5'', port = 7000, sinkId = 1, active = True\<rparr>)],
       sequence = 0, streamId = JNum (Num 4294967296), isStreaming = True,
       formatId = 0, sinkVersion = JStr ''2.0'', startSent = False,
       detectedSampleRate = None, sampleBuffer = [], sent = []\<rparr>"
proof -
  have m: "start_message example_runtime
     (addSink ''10.0.0.5'' 7000 1
        (example_session\<lparr>streamId := [int_val 1, JNum (Num 4294967296)] ! 1, formatId := 0,
           sequence := 0\<rparr>)) 1 = Inl JsError"
    using example_float_invite_raises by (simp add: start_message_addSink)
  have r: "handleMessage example_runtime 0 example_float_invite ''10.0.0.5'' 7000 example_session
     = (None, addSink ''10.0.0.5'' 7000 1
                (example_session\<lparr>streamId := JNum (Num 4294967296), formatId := 0, sequence := 0\<rparr>))"
    using invite_no_reply [OF example_float_invite_address includes_invite
        example_float_invite_args _ m, of 0]
    by simp
  show ?thesis
    unfolding example_poisoned_def r
    by (simp add: addSink_def start_def example_session_eq example_sink_def)
qed

lemma example_poisoned_not_encodable: "\<not> start_encodable example_runtime example_poisoned"
  by (simp add: start_encodable_def example_poisoned_eq to_number_def writeInt32BE_def)

section \<open>Changing the sample rate\<close>

lemma updateSampleRate_raises:
  assumes "newRate \<noteq> sampleRate st" "startSent st"
    "\<not> start_encodable rt (st\<lparr>sampleRate := newRate, formatId := formatId st + 1\<rparr>)"
    "filter active (map snd (sinks st)) \<noteq> []"
  shows "updateSampleRate rt newRate st
           = (Some JsError, st\<lparr>sampleRate := newRate, formatId := formatId st + 1\<rparr>)"
proof -
  let ?st = "st\<lparr>sampleRate := newRate, formatId := formatId st + 1\<rparr>"
  have "start_each rt (map snd (sinks st)) ?st = (Some JsError, ?st)"
    by (rule start_each_raises [OF start_not_encodable [OF assms(3)] assms(4)])
  then show ?thesis using assms(1,2) by (simp add: updateSampleRate_def)
qed

lemma updateSampleRate_idle:
  assumes "newRate \<noteq> sampleRate st" "startSent st" "filter active (map snd (sinks st)) = []"
  shows "updateSampleRate rt newRate st
           = (None, st\<lparr>sampleRate := newRate, formatId := formatId st + 1\<rparr>)"
  using assms by (simp add: updateSampleRate_def start_each_idle)

lemma example_reinvited_eq:
  "example_reinvited =
     \<lparr>channels = 2, sampleRate = 48000, blockSize = 4, sourceId = 1,
       sinks = [((''127.0.0.1'', 9999, 1), example_sink),
                ((''10.0.0.5'', 7000, 1),
                 \<lparr>host = ''10.0.0.5'', port = 7000, sinkId = 1, active = True\<rparr>)],
       sequence = 0, streamId = JNum (Num 4294967296), isStreaming = True,
       formatId = 0, sinkVersion = JStr ''2.0'', startSent = True,
       detectedSampleRate = None, sampleBuffer = [], sent = []\<rparr>"
proof -
  have "start_message example_runtime
     (example_announced\<lparr>streamId := [int_val 1, JNum (Num 4294967296)] ! 1, formatId := 0,
           sequence := 0\<rparr>) 1 = Inl JsError"
    by (rule start_message_bad_stream [of _ _ JsError])
       (simp add: encode_arg_def to_number_def writeInt32BE_def)
  then have m: "start_message example_runtime
     (addSink ''10.0.0.5'' 7000 1
        (example_announced\<lparr>streamId := [int_val 1, JNum (Num 4294967296)] ! 1, formatId := 0,
           sequence := 0\<rparr>)) 1 = Inl JsError"
    by (simp only: start_message_addSink)
  have r: "handleMessage example_runtime 0 example_float_invite ''10.0.0.5'' 7000 example_announced
     = (None, addSink ''10.0.0.5'' 7000 1
                (example_announced\<lparr>streamId := JNum (Num 4294967296), formatId := 0, sequence := 0\<rparr>))"
    using invite_no_reply [OF example_float_invite_address includes_invite
        example_float_invite_args _ m, of 0]
    by simp
  show ?thesis
    unfolding example_reinvited_def r
    by (simp add: addSink_def example_announced_def example_session_eq example_sink_def)
qed

text \<open>
  C8: \<open>updateSampleRate\<close> with the current rate changes nothing and sends nothing; with
  a new rate before the announcement it sets the rate and increments the format id and
  sends nothing. With a new rate after the announcement it sets the rate and increments
  the format id by one, and then: if the \<open>/start\<close> message of the updated session can be
  encoded, it sends exactly one \<open>/start\<close> message, carrying the new rate and format id,
  to each active sink of the registry, in the order of the registry; if the message
  cannot be encoded and the registry has an active sink, it raises at the first active
  sink and sends nothing; if the registry has no active sink, it sends nothing and
  returns.
\<close>

theorem update_sample_rate:
  "(newRate = sampleRate st \<longrightarrow> updateSampleRate rt newRate st = (None, st)) \<and>
   (newRate \<noteq> sampleRate st \<and> \<not> startSent st \<longrightarrow>
      updateSampleRate rt newRate st
        = (None, st\<lparr>sampleRate := newRate, formatId := formatId st + 1\<rparr>)) \<and>
   (newRate \<noteq> sampleRate st \<and> startSent st \<and>
      start_encodable rt (st\<lparr>sampleRate := newRate, formatId := formatId st + 1\<rparr>) \<longrightarrow>
      (\<exists>msgs. updateSampleRate rt newRate st
                 = (None, st\<lparr>sampleRate := newRate, formatId := formatId st + 1,
                              sent := sent st @ msgs\<rparr>) \<and>
         list_all2 (\<lambda>s d. start_message rt (st\<lparr>sampleRate := newRate, formatId := formatId st + 1\<rparr>)
                              (sinkId s) = Inr (fst d) \<and> snd d = (port s, host s))
           (filter active (map snd (sinks st))) msgs)) \<and>
   (newRate \<noteq> sampleRate st \<and> startSent st \<and>
      \<not> start_encodable rt (st\<lparr>sampleRate := newRate, formatId := formatId st + 1\<rparr>) \<and>
      filter active (map snd (sinks st)) \<noteq> [] \<longrightarrow>
      updateSampleRate rt newRate st
        = (Some JsError, st\<lparr>sampleRate := newRate, formatId := formatId st + 1\<rparr>)) \<and>
   (newRate \<noteq> sampleRate st \<and> startSent st \<and> filter active (map snd (sinks st)) = [] \<longrightarrow>
      updateSampleRate rt newRate st
        = (None, st\<lparr>sampleRate := newRate, formatId := formatId st + 1\<rparr>))"
proof (intro conjI)
  note c = updateSampleRate_cases [of newRate st rt]
  show "newRate = sampleRate st \<longrightarrow> updateSampleRate rt newRate st = (None, st)"
    by (rule c [THEN conjunct1])
  show "newRate \<noteq> sampleRate st \<and> \<not> startSent st \<longrightarrow>
      updateSampleRate rt newRate st
        = (None, st\<lparr>sampleRate := newRate, formatId := formatId st + 1\<rparr>)"
    by (rule c [THEN conjunct2, THEN conjunct1])
  show "newRate \<noteq> sampleRate st \<and> startSent st \<and>
      start_encodable rt (st\<lparr>sampleRate := newRate, formatId := formatId st + 1\<rparr>) \<longrightarrow>
      (\<exists>msgs. updateSampleRate rt newRate st
                 = (None, st\<lparr>sampleRate := newRate, formatId := formatId st + 1,
                              sent := sent st @ msgs\<rparr>) \<and>
         list_all2 (\<lambda>s d. start_message rt (st\<lparr>sampleRate := newRate, formatId := formatId st + 1\<rparr>)
                              (sinkId s) = Inr (fst d) \<and> snd d = (port s, host s))
           (filter active (map snd (sinks st))) msgs)"
    by (rule c [THEN conjunct2, THEN conjunct2])
  show "newRate \<noteq> sampleRate st \<and> startSent st \<and>
      \<not> start_encodable rt (st\<lparr>sampleRate := newRate, formatId := formatId st + 1\<rparr>) \<and>
      filter active (map snd (sinks st)) \<noteq> [] \<longrightarrow>
      updateSampleRate rt newRate st
        = (Some JsError, st\<lparr>sampleRate := newRate, formatId := formatId st + 1\<rparr>)"
    using updateSampleRate_raises [of newRate st rt] by blast
  show "newRate \<noteq> sampleRate st \<and> startSent st \<and> filter active (map snd (sinks st)) = [] \<longrightarrow>
      updateSampleRate rt newRate st
        = (None, st\<lparr>sampleRate := newRate, formatId := formatId st + 1\<rparr>)"
    using updateSampleRate_idle [of newRate st rt] by blast
qed

lemma example_reinvited_not_encodable:
  "\<not> start_encodable example_runtime
       (example_reinvited\<lparr>sampleRate := 44100, formatId := formatId example_reinvited + 1\<rparr>)"
  by (simp add: start_encodable_def example_reinvited_eq to_number_def writeInt32BE_def)

lemma example_rate_not_encodable:
  "\<not> start_encodable example_runtime
       (example_announced\<lparr>sampleRate := 2147483648, formatId := formatId example_announced + 1\<rparr>)"
  by (simp add: start_encodable_def example_announced_def example_session_eq in_int32_def)

text \<open>The bytes of the \<open>/start\<close> message of a session with an integer stream id.\<close>

lemma start_message_bytes:
  assumes "in_int32 (sourceId st)" "in_int32 (sequence st)" "in_int32 (formatId st)"
    "in_int32 (channels st)" "in_int32 (sampleRate st)" "in_int32 (blockSize st)"
    "in_int32 sid" "streamId st = int_val sid" "sinkVersion st = JStr ver" "ver \<noteq> []"
    "0 \<le> sampleRate st"
  shows "start_message rt st k
     = Inr (padded (''/aoo/sink/'' @ to_string rt (int_val k) @ ''/start'')
            @ padded '',isiiiiiisbtiiNNi''
            @ be32 (word_of_int (sourceId st)) @ padded ver @ be32 (word_of_int sid)
            @ be32 (word_of_int (sequence st)) @ be32 (word_of_int (formatId st))
            @ be32 (word_of_int (channels st)) @ be32 (word_of_int (sampleRate st))
            @ be32 (word_of_int (blockSize st)) @ padded ''pcm'' @ [0, 0, 0, 4, 0, 0, 0, 3]
            @ be64 0 @ be32 (word_of_int (sampleRate st div 10)) @ be32 0 @ be32 0)"
proof -
  have t: "encode_arg rt (CHR ''i'', JNum (Num (of_int (sampleRate st) / 10)))
             = Inr (be32 (word_of_int (sampleRate st div 10)))"
  proof -
    have f: "\<lfloor>(of_int (sampleRate st) :: rat) / 10\<rfloor> = sampleRate st div 10"
      by (simp add: floor_divide_of_int_eq [of "sampleRate st" 10, where ?'a = rat, simplified])
    have r: "0 \<le> (of_int (sampleRate st) :: rat) / 10" using assms(11) by simp
    have u: "(of_int (sampleRate st) :: rat) / 10 \<le> 2147483647"
      using assms(5) by (simp add: in_int32_def)
    show ?thesis
      using r u by (simp add: encode_arg_def to_number_def writeInt32BE_def trunc_def f)
  qed
  show ?thesis
    using assms(1-7)
    by (simp add: start_message_def buildOSCMessage_def start_args_def assms(8-10) truthy_def
          encode_arg_in_int32 encode_arg_s encode_arg_N encode_arg_t0 encode_arg_ext t
          del: encode_args.simps)
       (simp add: encode_arg_in_int32 encode_arg_s encode_arg_N encode_arg_t0 encode_arg_ext t
          in_int32_def)
qed

theorem update_sample_rate_witness:
  "48000 = sampleRate example_session \<and>
   updateSampleRate example_runtime 48000 example_session = (None, example_session) \<and>
   (44100 \<noteq> sampleRate example_session \<and> \<not> startSent example_session) \<and>
   updateSampleRate example_runtime 44100 example_session
     = (None, example_session\<lparr>sampleRate := 44100, formatId := formatId example_session + 1\<rparr>) \<and>
   (44100 \<noteq> sampleRate example_announced \<and> startSent example_announced \<and>
    start_encodable example_runtime
      (example_announced\<lparr>sampleRate := 44100, formatId := formatId example_announced + 1\<rparr>)) \<and>
   (\<exists>msgs. updateSampleRate example_runtime 44100 example_announced
                 = (None, example_announced\<lparr>sampleRate := 44100,
                       formatId := formatId example_announced + 1,
                       sent := sent example_announced @ msgs\<rparr>) \<and>
         list_all2 (\<lambda>s d. start_message example_runtime
                              (example_announced\<lparr>sampleRate := 44100,
                                 formatId := formatId example_announced + 1\<rparr>)
                              (sinkId s) = Inr (fst d) \<and> snd d = (port s, host s))
           (filter active (map snd (sinks example_announced))) msgs) \<and>
   (44100 \<noteq> sampleRate example_reinvited \<and> startSent example_reinvited \<and>
    \<not> start_encodable example_runtime
        (example_reinvited\<lparr>sampleRate := 44100, formatId := formatId example_reinvited + 1\<rparr>) \<and>
    filter active (map snd (sinks example_reinvited)) \<noteq> []) \<and>
   updateSampleRate example_runtime 44100 example_reinvited
     = (Some JsError,
        example_reinvited\<lparr>sampleRate := 44100, formatId := formatId example_reinvited + 1\<rparr>) \<and>
   (44100 \<noteq> sampleRate (example_announced\<lparr>sinks := []\<rparr>) \<and>
    startSent (example_announced\<lparr>sinks := []\<rparr>) \<and>
    filter active (map snd (sinks (example_announced\<lparr>sinks := []\<rparr>))) = []) \<and>
   updateSampleRate example_runtime 44100 (example_announced\<lparr>sinks := []\<rparr>)
     = (None, example_announced\<lparr>sinks := [], sampleRate := 44100,
                formatId := formatId (example_announced\<lparr>sinks := []\<rparr>) + 1\<rparr>) \<and>
   updateSampleRate example_runtime 44100 example_announced
     = (None, example_announced\<lparr>sampleRate := 44100, formatId := 1,
          sent := [(padded ''/aoo/sink/1/start'' @ padded '',isiiiiiisbtiiNNi''
               @ be32 1 @ padded ''2.0'' @ be32 1000 @ be32 0 @ be32 1 @ be32 2
               @ be32 44100 @ be32 4 @ padded ''pcm'' @ [0, 0, 0, 4, 0, 0, 0, 3]
               @ be64 0 @ be32 4410 @ be32 0 @ be32 0, 9999, ''127.0.0.1'')]\<rparr>)"
proof -
  have h1: "48000 = sampleRate example_session" by (simp add: example_session_eq)
  have h2: "44100 \<noteq> sampleRate example_session \<and> \<not> startSent example_session"
    by (simp add: example_session_eq)
  have h3: "44100 \<noteq> sampleRate example_announced \<and> startSent example_announced \<and>
    start_encodable example_runtime
      (example_announced\<lparr>sampleRate := 44100, formatId := formatId example_announced + 1\<rparr>)"
    using example_announced_encodable by (simp add: example_announced_def example_session_eq)
  have h4: "44100 \<noteq> sampleRate example_reinvited \<and> startSent example_reinvited \<and>
    \<not> start_encodable example_runtime
        (example_reinvited\<lparr>sampleRate := 44100, formatId := formatId example_reinvited + 1\<rparr>) \<and>
    filter active (map snd (sinks example_reinvited)) \<noteq> []"
    using example_reinvited_not_encodable by (simp add: example_reinvited_eq example_sink_def)
  have h5: "44100 \<noteq> sampleRate (example_announced\<lparr>sinks := []\<rparr>) \<and>
    startSent (example_announced\<lparr>sinks := []\<rparr>) \<and>
    filter active (map snd (sinks (example_announced\<lparr>sinks := []\<rparr>))) = []"
    by (simp add: example_announced_def example_session_eq)
  note t1 = update_sample_rate [of 48000 example_session example_runtime]
  note t2 = update_sample_rate [of 44100 example_session example_runtime]
  note t3 = update_sample_rate [of 44100 example_announced example_runtime]
  note t4 = update_sample_rate [of 44100 example_reinvited example_runtime]
  note t5 = update_sample_rate [of 44100 "example_announced\<lparr>sinks := []\<rparr>" example_runtime]
  note c1 = t1 [THEN conjunct1, rule_format, OF h1]
  note c2 = t2 [THEN conjunct2, THEN conjunct1, rule_format, OF h2]
  note c3 = t3 [THEN conjunct2, THEN conjunct2, THEN conjunct1, rule_format, OF h3]
  note c4 = t4 [THEN conjunct2, THEN conjunct2, THEN conjunct2, THEN conjunct1, rule_format, OF h4]
  note c5 = t5 [THEN conjunct2, THEN conjunct2, THEN conjunct2, THEN conjunct2, rule_format, OF h5]
  from c5 have c5': "updateSampleRate example_runtime 44100 (example_announced\<lparr>sinks := []\<rparr>)
     = (None, example_announced\<lparr>sinks := [], sampleRate := 44100,
                formatId := formatId (example_announced\<lparr>sinks := []\<rparr>) + 1\<rparr>)"
    by simp
  let ?u = "example_announced\<lparr>sampleRate := 44100, formatId := formatId example_announced + 1\<rparr>"
  from c3 obtain msgs where
    u: "updateSampleRate example_runtime 44100 example_announced
          = (None, example_announced\<lparr>sampleRate := 44100,
               formatId := formatId example_announced + 1, sent := sent example_announced @ msgs\<rparr>)"
    and l: "list_all2 (\<lambda>s d. start_message example_runtime ?u (sinkId s) = Inr (fst d) \<and>
                               snd d = (port s, host s))
              (filter active (map snd (sinks example_announced))) msgs"
    by (elim exE conjE) (rule that)
  have fs: "filter active (map snd (sinks example_announced)) = [example_sink]"
    "sinkId example_sink = 1" "port example_sink = 9999" "host example_sink = ''127.0.0.1''"
    "formatId example_announced + 1 = 1" "sent example_announced = []"
    by (simp_all add: example_announced_def example_session_eq example_sink_def)
  have sm: "start_message example_runtime ?u 1
     = Inr (padded ''/aoo/sink/1/start'' @ padded '',isiiiiiisbtiiNNi''
               @ be32 1 @ padded ''2.0'' @ be32 1000 @ be32 0 @ be32 1 @ be32 2
               @ be32 44100 @ be32 4 @ padded ''pcm'' @ [0, 0, 0, 4, 0, 0, 0, 3]
               @ be64 0 @ be32 4410 @ be32 0 @ be32 0)"
    by (subst start_message_bytes [where sid = 1000 and ver = "''2.0''"])
       (simp_all add: example_announced_def example_session_eq in_int32_def example_sink_name)
  from l have "\<exists>d. msgs = [d] \<and>
      start_message example_runtime ?u (sinkId example_sink) = Inr (fst d) \<and>
      snd d = (port example_sink, host example_sink)"
    unfolding fs(1) by (auto simp: list_all2_Cons1)
  then obtain d where d0: "msgs = [d]"
    "start_message example_runtime ?u (sinkId example_sink) = Inr (fst d)"
    "snd d = (port example_sink, host example_sink)"
    by (elim exE conjE) (rule that)
  note d = d0(1) d0(2) [unfolded fs(2)] d0(3) [unfolded fs(3,4)]
  from d(2) sm have "fst d = padded ''/aoo/sink/1/start'' @ padded '',isiiiiiisbtiiNNi''
               @ be32 1 @ padded ''2.0'' @ be32 1000 @ be32 0 @ be32 1 @ be32 2
               @ be32 44100 @ be32 4 @ padded ''pcm'' @ [0, 0, 0, 4, 0, 0, 0, 3]
               @ be64 0 @ be32 4410 @ be32 0 @ be32 0"
    by simp
  with d(3) have "d = (padded ''/aoo/sink/1/start'' @ padded '',isiiiiiisbtiiNNi''
               @ be32 1 @ padded ''2.0'' @ be32 1000 @ be32 0 @ be32 1 @ be32 2
               @ be32 44100 @ be32 4 @ padded ''pcm'' @ [0, 0, 0, 4, 0, 0, 0, 3]
               @ be64 0 @ be32 4410 @ be32 0 @ be32 0, 9999, ''127.0.0.1'')"
    by (cases d) simp
  with u d(1) have c6: "updateSampleRate example_runtime 44100 example_announced
     = (None, example_announced\<lparr>sampleRate := 44100, formatId := 1,
          sent := [(padded ''/aoo/sink/1/start'' @ padded '',isiiiiiisbtiiNNi''
               @ be32 1 @ padded ''2.0'' @ be32 1000 @ be32 0 @ be32 1 @ be32 2
               @ be32 44100 @ be32 4 @ padded ''pcm'' @ [0, 0, 0, 4, 0, 0, 0, 3]
               @ be64 0 @ be32 4410 @ be32 0 @ be32 0, 9999, ''127.0.0.1'')]\<rparr>)"
    by (simp add: fs)
  from h1 c1 h2 c2 h3 c3 h4 c4 h5 c5' c6 show ?thesis by (elim conjE) (intro conjI; assumption)
qed

text \<open>
  The claim C8 as stated fails: after the announcement the example session receives the
  invitation with the float token, which leaves a stream id that cannot be encoded;
  \<open>updateSampleRate\<close> with a new rate then sets the rate and increments the format id,
  raises at the first of the two active sinks and sends nothing. The same happens with
  a rate beyond the range of \<open>int32\<close>.
\<close>

theorem update_without_start_counterexample:
  "startSent example_reinvited \<and> sampleRate example_reinvited = 48000 \<and>
   length (filter active (map snd (sinks example_reinvited))) = 2 \<and>
   sent example_reinvited = [] \<and>
   updateSampleRate example_runtime 44100 example_reinvited
     = (Some JsError,
        example_reinvited\<lparr>sampleRate := 44100, formatId := formatId example_reinvited + 1\<rparr>) \<and>
   startSent example_announced \<and> sampleRate example_announced = 48000 \<and>
   length (filter active (map snd (sinks example_announced))) = 1 \<and>
   sent example_announced = [] \<and>
   updateSampleRate example_runtime 2147483648 example_announced
     = (Some JsError,
        example_announced\<lparr>sampleRate := 2147483648, formatId := formatId example_announced + 1\<rparr>)"
proof -
  have a: "startSent example_reinvited" "sampleRate example_reinvited = 48000"
    "length (filter active (map snd (sinks example_reinvited))) = 2" "sent example_reinvited = []"
    by (simp_all add: example_reinvited_eq example_sink_def)
  have b: "startSent example_announced" "sampleRate example_announced = 48000"
    "length (filter active (map snd (sinks example_announced))) = 1" "sent example_announced = []"
    by (simp_all add: example_announced_def example_session_eq example_sink_def)
  have n: "44100 \<noteq> sampleRate example_reinvited"
    "filter active (map snd (sinks example_reinvited)) \<noteq> []"
    "2147483648 \<noteq> sampleRate example_announced"
    "filter active (map snd (sinks example_announced)) \<noteq> []"
    by (simp_all add: example_reinvited_eq example_announced_def example_session_eq example_sink_def)
  have u1: "updateSampleRate example_runtime 44100 example_reinvited
     = (Some JsError,
        example_reinvited\<lparr>sampleRate := 44100, formatId := formatId example_reinvited + 1\<rparr>)"
    by (rule updateSampleRate_raises [OF n(1) a(1) example_reinvited_not_encodable n(2)])
  have u2: "updateSampleRate example_runtime 2147483648 example_announced
     = (Some JsError,
        example_announced\<lparr>sampleRate := 2147483648, formatId := formatId example_announced + 1\<rparr>)"
    by (rule updateSampleRate_raises [OF n(3) b(1) example_rate_not_encodable n(4)])
  from a u1 b u2 show ?thesis by - (intro conjI; assumption)
qed

section \<open>The two channel arrays\<close>

lemma announce_raises:
  assumes "\<not> startSent st" "\<not> start_encodable rt st" "filter active (map snd (sinks st)) \<noteq> []"
  shows "announce rt None st = (Some JsError, st)"
proof -
  have "start_each rt (map snd (sinks st)) st = (Some JsError, st)"
    by (rule start_each_raises [OF start_not_encodable [OF assms(2)] assms(3)])
  then show ?thesis using assms(1) by (simp add: announce_def sendStartToAllSinks_def)
qed

lemma sendAudio_announce_raises:
  assumes "isStreaming st" "announce rt rate st = (Some e, st1)"
  shows "sendAudio rt left right rate st = Some (Some e, st1)" "sampleBuffer st1 = sampleBuffer st"
proof -
  show "sendAudio rt left right rate st = Some (Some e, st1)"
    using assms by (simp add: sendAudio_def)
  show "sampleBuffer st1 = sampleBuffer st"
    using announce_effect [of rt rate st] by (auto simp: assms(2))
qed

lemma sendAudio_wire:
  assumes "isStreaming st" "0 < blockSize st * channels st"
    "0 \<le> sequence st" "sequence st < 0x7FFFFFFF"
  shows "\<exists>out. sendAudio rt left right rate st = Some out \<and>
           (fst out = None \<longrightarrow>
              map frame_payload (frames_since (length (sent st)) (snd out))
                = concat (map (\<lambda>j. replicate (length (sinks st))
                                 (block_bytes (nat (blockSize st * channels st))
                                    (sampleBuffer st @ interleaved left right) j))
                           [0..<length (sampleBuffer st @ interleaved left right)
                                  div nat (blockSize st * channels st)]) \<and>
              sampleBuffer (snd out)
                = drop (length (sampleBuffer st @ interleaved left right)
                          div nat (blockSize st * channels st) * nat (blockSize st * channels st))
                    (sampleBuffer st @ interleaved left right))"
proof -
  from sendAudio_effect [OF assms, of rt left right rate] obtain out m where
    o: "sendAudio rt left right rate st = Some out"
    and d: "fst out = None \<longrightarrow>
              m = length (sampleBuffer st @ interleaved left right) div nat (blockSize st * channels st) \<and>
              drained st (snd out) (sampleBuffer st @ interleaved left right) m"
    by (elim exE conjE) (rule that)
  show ?thesis
  proof (intro exI [of _ out] conjI impI)
    show "sendAudio rt left right rate st = Some out" by (rule o)
  next
    assume "fst out = None"
    with d have md: "m = length (sampleBuffer st @ interleaved left right) div nat (blockSize st * channels st) \<and>
              drained st (snd out) (sampleBuffer st @ interleaved left right) m"
      by (rule mp)
    from md have m: "m = length (sampleBuffer st @ interleaved left right) div nat (blockSize st * channels st)"
      by (rule conjunct1)
    from md have dr0: "drained st (snd out) (sampleBuffer st @ interleaved left right) m"
      by (rule conjunct2)
    note dr = dr0 [unfolded m]
    from dr show "map frame_payload (frames_since (length (sent st)) (snd out))
                = concat (map (\<lambda>j. replicate (length (sinks st))
                                 (block_bytes (nat (blockSize st * channels st))
                                    (sampleBuffer st @ interleaved left right) j))
                           [0..<length (sampleBuffer st @ interleaved left right)
                                  div nat (blockSize st * channels st)])"
      by (simp add: drained_def Let_def)
    from dr show "sampleBuffer (snd out)
                = drop (length (sampleBuffer st @ interleaved left right)
                          div nat (blockSize st * channels st) * nat (blockSize st * channels st))
                    (sampleBuffer st @ interleaved left right)"
      by (simp add: drained_def Let_def)
  qed
qed

text \<open>
  C10: a streaming call of \<open>sendAudio(left, right, ...)\<close> whose announcement does not
  raise, as is every call once \<open>/start\<close> has been announced, appends to the sample
  buffer exactly \<open>2 * length left\<close> samples, in the order
  \<open>left[0], right[0], left[1], right[1], ...\<close> (with \<open>undefined\<close> where \<open>right\<close> is shorter),
  whatever the configured number of channels, and then drains; the elements of \<open>right\<close>
  at or beyond \<open>length left\<close> are not read. When the call returns without raising, the
  frames that it sent carry, block after block, the buffer followed by the appended
  samples, and the buffer retains the rest. A call whose announcement raises returns
  that exception before the interleaving loop and appends nothing.
\<close>

theorem sendAudio_two_arrays:
  "(isStreaming st \<and> announce rt rate st = (None, st1) \<longrightarrow>
      sendAudio rt left right rate st
        = drain rt (st1\<lparr>sampleBuffer := sampleBuffer st @ interleaved left right\<rparr>)) \<and>
   (isStreaming st \<and> announce rt rate st = (Some e, st1) \<longrightarrow>
      sendAudio rt left right rate st = Some (Some e, st1) \<and> sampleBuffer st1 = sampleBuffer st) \<and>
   (startSent st \<longrightarrow> announce rt rate st = (None, st)) \<and>
   (isStreaming st \<and> 0 < blockSize st * channels st \<and> 0 \<le> sequence st \<and>
      sequence st < 0x7FFFFFFF \<longrightarrow>
      (\<exists>out. sendAudio rt left right rate st = Some out \<and>
         (fst out = None \<longrightarrow>
            map frame_payload (frames_since (length (sent st)) (snd out))
              = concat (map (\<lambda>j. replicate (length (sinks st))
                               (block_bytes (nat (blockSize st * channels st))
                                  (sampleBuffer st @ interleaved left right) j))
                         [0..<length (sampleBuffer st @ interleaved left right)
                                div nat (blockSize st * channels st)]) \<and>
            sampleBuffer (snd out)
              = drop (length (sampleBuffer st @ interleaved left right)
                        div nat (blockSize st * channels st) * nat (blockSize st * channels st))
                  (sampleBuffer st @ interleaved left right)))) \<and>
   push_samples left right buf = buf @ interleaved left right \<and>
   length (interleaved left right) = 2 * length left \<and>
   (\<forall>i < length left. interleaved left right ! (2 * i) = Some (left ! i) \<and>
                      interleaved left right ! (2 * i + 1) = array_get right i) \<and>
   interleaved left right = interleaved left (take (length left) right)"
proof (intro conjI)
  show "isStreaming st \<and> announce rt rate st = (None, st1) \<longrightarrow>
      sendAudio rt left right rate st
        = drain rt (st1\<lparr>sampleBuffer := sampleBuffer st @ interleaved left right\<rparr>)"
  proof (rule impI)
    assume a: "isStreaming st \<and> announce rt rate st = (None, st1)"
    have "sampleBuffer st1 = sampleBuffer st"
      using announce_effect [of rt rate st] a by auto
    then show "sendAudio rt left right rate st
        = drain rt (st1\<lparr>sampleBuffer := sampleBuffer st @ interleaved left right\<rparr>)"
      using a by (simp add: sendAudio_def push_samples_eq)
  qed
  show "isStreaming st \<and> announce rt rate st = (Some e, st1) \<longrightarrow>
      sendAudio rt left right rate st = Some (Some e, st1) \<and> sampleBuffer st1 = sampleBuffer st"
  proof (rule impI)
    assume "isStreaming st \<and> announce rt rate st = (Some e, st1)"
    then have a: "isStreaming st" "announce rt rate st = (Some e, st1)" by simp_all
    show "sendAudio rt left right rate st = Some (Some e, st1) \<and> sampleBuffer st1 = sampleBuffer st"
      by (intro conjI sendAudio_announce_raises [OF a])
  qed
  show "startSent st \<longrightarrow> announce rt rate st = (None, st)"
    by (simp add: announce_def)
  show "isStreaming st \<and> 0 < blockSize st * channels st \<and> 0 \<le> sequence st \<and>
      sequence st < 0x7FFFFFFF \<longrightarrow>
      (\<exists>out. sendAudio rt left right rate st = Some out \<and>
         (fst out = None \<longrightarrow>
            map frame_payload (frames_since (length (sent st)) (snd out))
              = concat (map (\<lambda>j. replicate (length (sinks st))
                               (block_bytes (nat (blockSize st * channels st))
                                  (sampleBuffer st @ interleaved left right) j))
                         [0..<length (sampleBuffer st @ interleaved left right)
                                div nat (blockSize st * channels st)]) \<and>
            sampleBuffer (snd out)
              = drop (length (sampleBuffer st @ interleaved left right)
                        div nat (blockSize st * channels st) * nat (blockSize st * channels st))
                  (sampleBuffer st @ interleaved left right)))"
  proof (rule impI)
    assume "isStreaming st \<and> 0 < blockSize st * channels st \<and> 0 \<le> sequence st \<and>
      sequence st < 0x7FFFFFFF"
    then have a: "isStreaming st" "0 < blockSize st * channels st" "0 \<le> sequence st"
      "sequence st < 0x7FFFFFFF" by simp_all
    show "\<exists>out. sendAudio rt left right rate st = Some out \<and>
         (fst out = None \<longrightarrow>
            map frame_payload (frames_since (length (sent st)) (snd out))
              = concat (map (\<lambda>j. replicate (length (sinks st))
                               (block_bytes (nat (blockSize st * channels st))
                                  (sampleBuffer st @ interleaved left right) j))
                         [0..<length (sampleBuffer st @ interleaved left right)
                                div nat (blockSize st * channels st)]) \<and>
            sampleBuffer (snd out)
              = drop (length (sampleBuffer st @ interleaved left right)
                        div nat (blockSize st * channels st) * nat (blockSize st * channels st))
                  (sampleBuffer st @ interleaved left right))"
      by (rule sendAudio_wire [OF a])
  qed
  show "push_samples left right buf = buf @ interleaved left right"
    by (rule push_samples_eq)
  show "length (interleaved left right) = 2 * length left" by (rule length_interleaved)
  show "\<forall>i < length left. interleaved left right ! (2 * i) = Some (left ! i) \<and>
                      interleaved left right ! (2 * i + 1) = array_get right i"
    using interleaved_nth [of _ left right] by blast
  show "interleaved left right = interleaved left (take (length left) right)"
    by (rule interleaved_take)
qed

lemma example_poisoned_announce:
  "announce example_runtime None example_poisoned = (Some JsError, example_poisoned)"
  by (rule announce_raises [OF _ example_poisoned_not_encodable])
     (simp_all add: example_poisoned_eq example_sink_def)

lemma example_interleaved2:
  "interleaved [0x3F800000, 0x7F800000, 0x40400000, 0x40800000] [0x41200000, 0x7FA00000]
     = [Some 0x3F800000, Some 0x41200000, Some 0x7F800000, Some 0x7FA00000,
        Some 0x40400000, None, Some 0x40800000, None]"
  by (simp add: interleaved_def array_get_def)

lemma example_block:
  "concat (map writeFloatBE
     [Some 0x3F800000, Some 0x41200000, Some 0x7F800000, Some 0x7FA00000,
      Some 0x40400000, None, Some 0x40800000, None])
     = [0x3F, 0x80, 0, 0, 0x41, 0x20, 0, 0, 0x7F, 0x80, 0, 0, 0x7F, 0xC0, 0, 0,
        0x40, 0x40, 0, 0, 0x7F, 0xC0, 0, 0, 0x40, 0x80, 0, 0, 0x7F, 0xC0, 0, 0]"
  by (simp add: writeFloatBE_def is_nan_def be32_def)

lemma example_first_announce:
  "announce example_runtime (Some 44100) (start example_session)
     = (None, (start example_session)
          \<lparr>sampleRate := 44100, formatId := 1, startSent := True,
            sent := [(padded ''/aoo/sink/1/start'' @ padded '',isiiiiiisbtiiNNi''
                       @ be32 1 @ padded ''2.0'' @ be32 1000 @ be32 0 @ be32 1 @ be32 2
                       @ be32 44100 @ be32 4 @ padded ''pcm'' @ [0, 0, 0, 4, 0, 0, 0, 3]
                       @ be64 0 @ be32 4410 @ be32 0 @ be32 0, 9999, ''127.0.0.1'')]\<rparr>)"
proof -
  let ?st = "(start example_session)\<lparr>sampleRate := 44100, formatId := formatId (start example_session) + 1\<rparr>"
  have m: "start_message example_runtime ?st 1
     = Inr (padded ''/aoo/sink/1/start'' @ padded '',isiiiiiisbtiiNNi''
                       @ be32 1 @ padded ''2.0'' @ be32 1000 @ be32 0 @ be32 1 @ be32 2
                       @ be32 44100 @ be32 4 @ padded ''pcm'' @ [0, 0, 0, 4, 0, 0, 0, 3]
                       @ be64 0 @ be32 4410 @ be32 0 @ be32 0)"
    by (subst start_message_bytes [where sid = 1000 and ver = "''2.0''"])
       (simp_all add: start_def example_session_eq in_int32_def example_sink_name)
  show ?thesis
    using m
    by (simp add: announce_def setSampleRate_def sendStartToAllSinks_def sendStartOSC_def
          start_def example_session_eq example_sink_def)
qed

lemma example_first_drain:
  "drain example_runtime
     ((start example_session)
          \<lparr>sampleRate := 44100, formatId := 1, startSent := True,
            sent := [(padded ''/aoo/sink/1/start'' @ padded '',isiiiiiisbtiiNNi''
                       @ be32 1 @ padded ''2.0'' @ be32 1000 @ be32 0 @ be32 1 @ be32 2
                       @ be32 44100 @ be32 4 @ padded ''pcm'' @ [0, 0, 0, 4, 0, 0, 0, 3]
                       @ be64 0 @ be32 4410 @ be32 0 @ be32 0, 9999, ''127.0.0.1'')],
            sampleBuffer := sampleBuffer (start example_session)
              @ interleaved [0x3F800000, 0x7F800000, 0x40400000, 0x40800000]
                  [0x41200000, 0x7FA00000]\<rparr>)
     = Some (None, (start example_session)
          \<lparr>sampleRate := 44100, formatId := 1, startSent := True, sequence := 1,
            sent := [(padded ''/aoo/sink/1/start'' @ padded '',isiiiiiisbtiiNNi''
                       @ be32 1 @ padded ''2.0'' @ be32 1000 @ be32 0 @ be32 1 @ be32 2
                       @ be32 44100 @ be32 4 @ padded ''pcm'' @ [0, 0, 0, 4, 0, 0, 0, 3]
                       @ be64 0 @ be32 4410 @ be32 0 @ be32 0, 9999, ''127.0.0.1''),
                     ([0x81, 0, 1, 1, 0, 0, 3, 232, 0, 0, 0, 0, 0, 0, 0, 32,
                       0x3F, 0x80, 0, 0, 0x41, 0x20, 0, 0, 0x7F, 0x80, 0, 0, 0x7F, 0xC0, 0, 0,
                       0x40, 0x40, 0, 0, 0x7F, 0xC0, 0, 0, 0x40, 0x80, 0, 0, 0x7F, 0xC0, 0, 0],
                      9999, ''127.0.0.1'')]\<rparr>)"
proof -
  define START where "START = padded ''/aoo/sink/1/start'' @ padded '',isiiiiiisbtiiNNi''
                       @ be32 1 @ padded ''2.0'' @ be32 1000 @ be32 0 @ be32 1 @ be32 2
                       @ be32 44100 @ be32 4 @ padded ''pcm'' @ [0, 0, 0, 4, 0, 0, 0, 3]
                       @ be64 0 @ be32 4410 @ be32 0 @ be32 0"
  define BLOCK where "BLOCK = [Some 0x3F800000, Some 0x41200000, Some 0x7F800000, Some 0x7FA00000,
        Some 0x40400000, None, Some (0x40800000 :: 32 word), None]"
  define AUDIO :: buffer where
    "AUDIO = [0x3F, 0x80, 0, 0, 0x41, 0x20, 0, 0, 0x7F, 0x80, 0, 0, 0x7F, 0xC0, 0, 0,
              0x40, 0x40, 0, 0, 0x7F, 0xC0, 0, 0, 0x40, 0x80, 0, 0, 0x7F, 0xC0, 0, 0]"
  define S0 where "S0 = (start example_session)
          \<lparr>sampleRate := 44100, formatId := 1, startSent := True,
            sent := [(START, 9999, ''127.0.0.1'')]\<rparr>"
  define S3 where "S3 = S0\<lparr>sent := [(START, 9999, ''127.0.0.1''),
      ([0x81, 0, 1, 1, 0, 0, 3, 232, 0, 0, 0, 0, 0, 0, 0, 32] @ AUDIO, 9999, ''127.0.0.1'')],
      sequence := 1\<rparr>"
  have f0: "streamId S0 = int_val 1000" "sequence S0 = 0" "sourceId S0 = 1"
    "map snd (sinks S0) = [example_sink]" "blockSize S0 = 4" "channels S0 = 2"
    "sent S0 = [(START, 9999, ''127.0.0.1'')]" "sampleBuffer S0 = []"
    "sampleBuffer (start example_session) = []"
    by (simp_all add: S0_def start_def example_session_eq)
  have au: "concat (map writeFloatBE BLOCK) = AUDIO"
    unfolding BLOCK_def AUDIO_def by (rule example_block)
  have la: "length AUDIO = 32" by (simp add: AUDIO_def)
  have bd: "buildDataMessage example_runtime S0 example_sink AUDIO
             = Inr ([0x81, 0, 1, 1, 0, 0, 3, 232, 0, 0, 0, 0, 0, 0, 0, 32] @ AUDIO)"
    by (simp add: example_sink_def buildDataMessage_def f0 la to_number_def
        int_val_def writeInt32BE_def trunc_def be32_def writeUInt16BE_def
        kAooMsgTypeSink_def kAooBinMsgDomainBit_def kAooBinMsgCmdData_def)
  have ps: "port example_sink = 9999" "host example_sink = ''127.0.0.1''"
    by (simp_all add: example_sink_def)
  have sb: "sendBlock example_runtime BLOCK S0 = (None, S3)"
    by (simp add: sendBlock_def f0 au bd S3_def ps)
  have f3: "sampleBuffer S3 = []" "blockSize S3 = 4" "channels S3 = 2"
    by (simp_all add: S3_def f0)
  have d3: "drain example_runtime S3 = Some (None, S3)"
    by (subst drain.simps) (simp add: f3)
  have f1: "sampleBuffer (S0\<lparr>sampleBuffer := BLOCK\<rparr>) = BLOCK"
    "blockSize (S0\<lparr>sampleBuffer := BLOCK\<rparr>) = 4" "channels (S0\<lparr>sampleBuffer := BLOCK\<rparr>) = 2"
    "length BLOCK = 8"
    by (simp_all add: f0 BLOCK_def)
  have s00: "S0\<lparr>sampleBuffer := []\<rparr> = S0" using f0(8) by simp
  have d1: "drain example_runtime (S0\<lparr>sampleBuffer := BLOCK\<rparr>) = Some (None, S3)"
    by (subst drain.simps) (simp add: f1 s00 sb d3)
  have e1: "(start example_session)
          \<lparr>sampleRate := 44100, formatId := 1, startSent := True,
            sent := [(START, 9999, ''127.0.0.1'')],
            sampleBuffer := sampleBuffer (start example_session)
              @ interleaved [0x3F800000, 0x7F800000, 0x40400000, 0x40800000]
                  [0x41200000, 0x7FA00000]\<rparr> = S0\<lparr>sampleBuffer := BLOCK\<rparr>"
    by (simp add: S0_def BLOCK_def f0(9) example_interleaved2)
  have e3: "(start example_session)
          \<lparr>sampleRate := 44100, formatId := 1, startSent := True, sequence := 1,
            sent := [(START, 9999, ''127.0.0.1''),
                     ([0x81, 0, 1, 1, 0, 0, 3, 232, 0, 0, 0, 0, 0, 0, 0, 32,
                       0x3F, 0x80, 0, 0, 0x41, 0x20, 0, 0, 0x7F, 0x80, 0, 0, 0x7F, 0xC0, 0, 0,
                       0x40, 0x40, 0, 0, 0x7F, 0xC0, 0, 0, 0x40, 0x80, 0, 0, 0x7F, 0xC0, 0, 0],
                      9999, ''127.0.0.1'')]\<rparr> = S3"
    by (simp add: S3_def S0_def AUDIO_def)
  show ?thesis
    unfolding START_def [symmetric] e1 e3 by (rule d1)
qed

theorem sendAudio_two_arrays_witness:
  "(isStreaming example_announced \<and> startSent example_announced \<and>
    0 < blockSize example_announced * channels example_announced \<and>
    0 \<le> sequence example_announced \<and> sequence example_announced < 0x7FFFFFFF) \<and>
   announce example_runtime None example_announced = (None, example_announced) \<and>
   sendAudio example_runtime [0x3F800000, 0x7F800000, 0x40400000, 0x40800000]
       [0x41200000, 0x7FA00000] None example_announced
     = drain example_runtime
         (example_announced\<lparr>sampleBuffer := sampleBuffer example_announced
              @ interleaved [0x3F800000, 0x7F800000, 0x40400000, 0x40800000]
                  [0x41200000, 0x7FA00000]\<rparr>) \<and>
   interleaved [0x3F800000, 0x7F800000, 0x40400000, 0x40800000] [0x41200000, 0x7FA00000]
     = [Some 0x3F800000, Some 0x41200000, Some 0x7F800000, Some 0x7FA00000,
        Some 0x40400000, None, Some 0x40800000, None] \<and>
   (\<exists>out. sendAudio example_runtime [0x3F800000, 0x7F800000, 0x40400000, 0x40800000]
              [0x41200000, 0x7FA00000] None example_announced = Some out \<and>
      fst out = None \<and>
      map frame_payload (frames_since 0 (snd out))
        = [[0x3F, 0x80, 0, 0, 0x41, 0x20, 0, 0, 0x7F, 0x80, 0, 0, 0x7F, 0xC0, 0, 0,
            0x40, 0x40, 0, 0, 0x7F, 0xC0, 0, 0, 0x40, 0x80, 0, 0, 0x7F, 0xC0, 0, 0]] \<and>
      sampleBuffer (snd out) = []) \<and>
   isStreaming (start example_session) \<and>
   announce example_runtime (Some 44100) (start example_session)
     = (None, (start example_session)
          \<lparr>sampleRate := 44100, formatId := 1, startSent := True,
            sent := [(padded ''/aoo/sink/1/start'' @ padded '',isiiiiiisbtiiNNi''
                       @ be32 1 @ padded ''2.0'' @ be32 1000 @ be32 0 @ be32 1 @ be32 2
                       @ be32 44100 @ be32 4 @ padded ''pcm'' @ [0, 0, 0, 4, 0, 0, 0, 3]
                       @ be64 0 @ be32 4410 @ be32 0 @ be32 0, 9999, ''127.0.0.1'')]\<rparr>) \<and>
   sendAudio example_runtime [0x3F800000, 0x7F800000, 0x40400000, 0x40800000]
       [0x41200000, 0x7FA00000] (Some 44100) (start example_session)
     = Some (None, (start example_session)
          \<lparr>sampleRate := 44100, formatId := 1, startSent := True, sequence := 1,
            sent := [(padded ''/aoo/sink/1/start'' @ padded '',isiiiiiisbtiiNNi''
                       @ be32 1 @ padded ''2.0'' @ be32 1000 @ be32 0 @ be32 1 @ be32 2
                       @ be32 44100 @ be32 4 @ padded ''pcm'' @ [0, 0, 0, 4, 0, 0, 0, 3]
                       @ be64 0 @ be32 4410 @ be32 0 @ be32 0, 9999, ''127.0.0.1''),
                     ([0x81, 0, 1, 1, 0, 0, 3, 232, 0, 0, 0, 0, 0, 0, 0, 32,
                       0x3F, 0x80, 0, 0, 0x41, 0x20, 0, 0, 0x7F, 0x80, 0, 0, 0x7F, 0xC0, 0, 0,
                       0x40, 0x40, 0, 0, 0x7F, 0xC0, 0, 0, 0x40, 0x80, 0, 0, 0x7F, 0xC0, 0, 0],
                      9999, ''127.0.0.1'')]\<rparr>) \<and>
   isStreaming example_poisoned \<and>
   announce example_runtime None example_poisoned = (Some JsError, example_poisoned) \<and>
   sendAudio example_runtime [0x3F800000, 0x7F800000, 0x40400000, 0x40800000]
       [0x41200000, 0x7FA00000] None example_poisoned
     = Some (Some JsError, example_poisoned)"
proof -
  let ?L = "[0x3F800000, 0x7F800000, 0x40400000, 0x40800000] :: 32 word list"
  let ?R = "[0x41200000, 0x7FA00000] :: 32 word list"
  let ?a = example_announced
  let ?s = "start example_session"
  let ?s1 = "(start example_session)
          \<lparr>sampleRate := 44100, formatId := 1, startSent := True,
            sent := [(padded ''/aoo/sink/1/start'' @ padded '',isiiiiiisbtiiNNi''
                       @ be32 1 @ padded ''2.0'' @ be32 1000 @ be32 0 @ be32 1 @ be32 2
                       @ be32 44100 @ be32 4 @ padded ''pcm'' @ [0, 0, 0, 4, 0, 0, 0, 3]
                       @ be64 0 @ be32 4410 @ be32 0 @ be32 0, 9999, ''127.0.0.1'')]\<rparr>"
  have v: "isStreaming ?a" "startSent ?a" "blockSize ?a = 4" "channels ?a = 2" "sequence ?a = 0"
    "sampleBuffer ?a = []" "length (sent ?a) = 0" "length (sinks ?a) = 1"
    by (simp_all add: example_announced_def example_session_eq)
  have h1: "isStreaming ?a \<and> startSent ?a \<and> 0 < blockSize ?a * channels ?a \<and>
    0 \<le> sequence ?a \<and> sequence ?a < 0x7FFFFFFF"
    by (simp add: v)
  note t = sendAudio_two_arrays [where st = ?a and rt = example_runtime and rate = None
      and left = ?L and right = ?R and ?st1.0 = ?a and e = JsError and buf = "[]"]
  note p = sendAudio_two_arrays [where st = example_poisoned and rt = example_runtime
      and rate = None and left = ?L and right = ?R and ?st1.0 = example_poisoned and e = JsError
      and buf = "[]"]
  note q = sendAudio_two_arrays [where st = ?s and rt = example_runtime
      and rate = "Some 44100" and left = ?L and right = ?R and ?st1.0 = ?s1 and e = JsError
      and buf = "[]"]
  have an: "announce example_runtime None ?a = (None, ?a)"
    using t [THEN conjunct2, THEN conjunct2, THEN conjunct1] v(2) by (rule mp)
  have sa: "sendAudio example_runtime ?L ?R None ?a
     = drain example_runtime (?a\<lparr>sampleBuffer := sampleBuffer ?a @ interleaved ?L ?R\<rparr>)"
    using t [THEN conjunct1] v(1) an by blast
  have fe: "frame_encodable example_runtime ?a"
    by (simp add: frame_encodable_def example_announced_def example_session_eq to_number_def
          int_val_def writeInt32BE_def)
  from sendAudio_no_raise [OF v(1) _ _ fe, of ?L ?R]
  have nr: "\<exists>st'. sendAudio example_runtime ?L ?R None ?a = Some (None, st')"
    by (auto simp: v)
  have w: "isStreaming ?a \<and> 0 < blockSize ?a * channels ?a \<and> 0 \<le> sequence ?a \<and>
      sequence ?a < 0x7FFFFFFF"
    by (simp add: v)
  from t [THEN conjunct2, THEN conjunct2, THEN conjunct2, THEN conjunct1] w
  have "\<exists>out. sendAudio example_runtime ?L ?R None ?a = Some out \<and>
         (fst out = None \<longrightarrow>
            map frame_payload (frames_since (length (sent ?a)) (snd out))
              = concat (map (\<lambda>j. replicate (length (sinks ?a))
                               (block_bytes (nat (blockSize ?a * channels ?a))
                                  (sampleBuffer ?a @ interleaved ?L ?R) j))
                         [0..<length (sampleBuffer ?a @ interleaved ?L ?R)
                                div nat (blockSize ?a * channels ?a)]) \<and>
            sampleBuffer (snd out)
              = drop (length (sampleBuffer ?a @ interleaved ?L ?R)
                        div nat (blockSize ?a * channels ?a) * nat (blockSize ?a * channels ?a))
                  (sampleBuffer ?a @ interleaved ?L ?R))"
    by (rule mp)
  then obtain out where
    o: "sendAudio example_runtime ?L ?R None ?a = Some out"
    and r: "fst out = None \<longrightarrow>
            map frame_payload (frames_since (length (sent ?a)) (snd out))
              = concat (map (\<lambda>j. replicate (length (sinks ?a))
                               (block_bytes (nat (blockSize ?a * channels ?a))
                                  (sampleBuffer ?a @ interleaved ?L ?R) j))
                         [0..<length (sampleBuffer ?a @ interleaved ?L ?R)
                                div nat (blockSize ?a * channels ?a)]) \<and>
            sampleBuffer (snd out)
              = drop (length (sampleBuffer ?a @ interleaved ?L ?R)
                        div nat (blockSize ?a * channels ?a) * nat (blockSize ?a * channels ?a))
                  (sampleBuffer ?a @ interleaved ?L ?R)"
    by (elim exE conjE) (rule that)
  from nr o have f: "fst out = None" by auto
  have bb: "block_bytes 8 [Some 0x3F800000, Some 0x41200000, Some 0x7F800000, Some 0x7FA00000,
        Some 0x40400000, None, Some 0x40800000, None] 0
      = [0x3F, 0x80, 0, 0, 0x41, 0x20, 0, 0, 0x7F, 0x80, 0, 0, 0x7F, 0xC0, 0, 0,
            0x40, 0x40, 0, 0, 0x7F, 0xC0, 0, 0, 0x40, 0x80, 0, 0, 0x7F, 0xC0, 0, 0]"
    using example_block by (simp add: block_bytes_def)
  from r f have "map frame_payload (frames_since (length (sent ?a)) (snd out))
              = concat (map (\<lambda>j. replicate (length (sinks ?a))
                               (block_bytes (nat (blockSize ?a * channels ?a))
                                  (sampleBuffer ?a @ interleaved ?L ?R) j))
                         [0..<length (sampleBuffer ?a @ interleaved ?L ?R)
                                div nat (blockSize ?a * channels ?a)]) \<and>
            sampleBuffer (snd out)
              = drop (length (sampleBuffer ?a @ interleaved ?L ?R)
                        div nat (blockSize ?a * channels ?a) * nat (blockSize ?a * channels ?a))
                  (sampleBuffer ?a @ interleaved ?L ?R)"
    by (rule mp)
  then have r': "map frame_payload (frames_since 0 (snd out))
        = [[0x3F, 0x80, 0, 0, 0x41, 0x20, 0, 0, 0x7F, 0x80, 0, 0, 0x7F, 0xC0, 0, 0,
            0x40, 0x40, 0, 0, 0x7F, 0xC0, 0, 0, 0x40, 0x80, 0, 0, 0x7F, 0xC0, 0, 0]]"
      "sampleBuffer (snd out) = []"
    unfolding v example_interleaved2 by (simp_all add: bb)
  have ex: "\<exists>out. sendAudio example_runtime ?L ?R None ?a = Some out \<and>
      fst out = None \<and>
      map frame_payload (frames_since 0 (snd out))
        = [[0x3F, 0x80, 0, 0, 0x41, 0x20, 0, 0, 0x7F, 0x80, 0, 0, 0x7F, 0xC0, 0, 0,
            0x40, 0x40, 0, 0, 0x7F, 0xC0, 0, 0, 0x40, 0x80, 0, 0, 0x7F, 0xC0, 0, 0]] \<and>
      sampleBuffer (snd out) = []"
    by (intro exI [of _ out] conjI) (rule o, rule f, rule r'(1), rule r'(2))
  have ss: "isStreaming ?s" by (simp add: start_def example_session_eq)
  have "sendAudio example_runtime ?L ?R (Some 44100) ?s
     = drain example_runtime (?s1\<lparr>sampleBuffer := sampleBuffer ?s @ interleaved ?L ?R\<rparr>)"
    using q [THEN conjunct1] ss example_first_announce by blast
  then have fc: "sendAudio example_runtime ?L ?R (Some 44100) ?s
     = Some (None, (start example_session)
          \<lparr>sampleRate := 44100, formatId := 1, startSent := True, sequence := 1,
            sent := [(padded ''/aoo/sink/1/start'' @ padded '',isiiiiiisbtiiNNi''
                       @ be32 1 @ padded ''2.0'' @ be32 1000 @ be32 0 @ be32 1 @ be32 2
                       @ be32 44100 @ be32 4 @ padded ''pcm'' @ [0, 0, 0, 4, 0, 0, 0, 3]
                       @ be64 0 @ be32 4410 @ be32 0 @ be32 0, 9999, ''127.0.0.1''),
                     ([0x81, 0, 1, 1, 0, 0, 3, 232, 0, 0, 0, 0, 0, 0, 0, 32,
                       0x3F, 0x80, 0, 0, 0x41, 0x20, 0, 0, 0x7F, 0x80, 0, 0, 0x7F, 0xC0, 0, 0,
                       0x40, 0x40, 0, 0, 0x7F, 0xC0, 0, 0, 0x40, 0x80, 0, 0, 0x7F, 0xC0, 0, 0],
                      9999, ''127.0.0.1'')]\<rparr>)"
    by (simp only: example_first_drain)
  have ps: "isStreaming example_poisoned" by (simp add: example_poisoned_eq)
  have pr: "sendAudio example_runtime ?L ?R None example_poisoned
     = Some (Some JsError, example_poisoned)"
    using p [THEN conjunct2, THEN conjunct1] ps example_poisoned_announce by blast
  from h1 an sa example_interleaved2 ex ss example_first_announce fc ps
    example_poisoned_announce pr
  show ?thesis by (elim conjE) (intro conjI; assumption)
qed

text \<open>
  The claim C10 as stated fails: the example session, after the invitation with the
  float token and \<open>start()\<close>, is streaming, but its \<open>/start\<close> message cannot be encoded;
  \<open>sendAudio\<close> raises in the announcement, before the interleaving loop, and appends
  nothing to the sample buffer.
\<close>

theorem sendAudio_without_push_counterexample:
  "isStreaming example_poisoned \<and> sampleBuffer example_poisoned = [] \<and>
   sendAudio example_runtime [0x3F800000, 0x40000000, 0x40400000, 0x40800000]
       [0x41200000, 0x41A00000] None example_poisoned
     = Some (Some JsError, example_poisoned)"
proof -
  have s: "isStreaming example_poisoned" "sampleBuffer example_poisoned = []"
    by (simp_all add: example_poisoned_eq)
  have "sendAudio example_runtime [0x3F800000, 0x40000000, 0x40400000, 0x40800000]
       [0x41200000, 0x41A00000] None example_poisoned
     = Some (Some JsError, example_poisoned)"
    by (rule sendAudio_announce_raises(1) [OF s(1) example_poisoned_announce])
  with s show ?thesis by - (intro conjI; assumption)
qed

section \<open>Blocks beyond the length field\<close>







end
